theory Spec2Isabelle
  imports Complex_Main "HOL-Library.Char_ord" "HOL-Library.List_Lexorder" "HOL-Library.Multiset"
begin

section \<open>Python values and strings\<close>

text \<open>
  The scrapers are Python scripts working on dictionaries with string values. A dictionary
  field is modelled as a \<open>val option\<close>: \<open>None\<close> is an absent key, \<open>Some Null\<close> is the
  Python value \<open>None\<close> stored under the key, \<open>Some (Str s)\<close> is a string. Strings are
  \<open>char list\<close>s restricted to ASCII: Python's \<open>\s\<close>, \<open>\d\<close>, \<open>\w\<close>, \<open>upper\<close> and
  \<open>lower\<close> are modelled on the ASCII range only.
\<close>

datatype val = Null | Str string

text \<open>\<open>d.get(k)\<close> and \<open>d.get(k, default)\<close>.\<close>

definition get :: "val option \<Rightarrow> val" where
  "get f = (case f of None \<Rightarrow> Null | Some v \<Rightarrow> v)"

definition get_default :: "val option \<Rightarrow> string \<Rightarrow> val" where
  "get_default f d = (case f of None \<Rightarrow> Str d | Some v \<Rightarrow> v)"

text \<open>Truthiness of a value: \<open>None\<close> and the empty string are falsy.\<close>

fun truthy :: "val \<Rightarrow> bool" where
  "truthy Null = False"
| "truthy (Str s) = (s \<noteq> [])"

text \<open>\<open>v or ''\<close> for a value that is a string or \<open>None\<close>.\<close>

fun or_empty :: "val \<Rightarrow> string" where
  "or_empty Null = []"
| "or_empty (Str s) = s"

text \<open>
  Whitespace as \<open>str.isspace\<close> and the regular expression class \<open>\s\<close> see it on ASCII:
  the characters 9 to 13, 28 to 31 and the blank.
\<close>

definition is_space :: "char \<Rightarrow> bool" where
  "is_space c \<longleftrightarrow> (let n = (of_char c :: nat) in (9 \<le> n \<and> n \<le> 13) \<or> (28 \<le> n \<and> n \<le> 32))"

definition is_digit :: "char \<Rightarrow> bool" where
  "is_digit c \<longleftrightarrow> (let n = (of_char c :: nat) in 48 \<le> n \<and> n \<le> 57)"

definition is_lower :: "char \<Rightarrow> bool" where
  "is_lower c \<longleftrightarrow> (let n = (of_char c :: nat) in 97 \<le> n \<and> n \<le> 122)"

definition is_upper :: "char \<Rightarrow> bool" where
  "is_upper c \<longleftrightarrow> (let n = (of_char c :: nat) in 65 \<le> n \<and> n \<le> 90)"

definition upper_char :: "char \<Rightarrow> char" where
  "upper_char c = (if is_lower c then char_of ((of_char c :: nat) - 32) else c)"

definition lower_char :: "char \<Rightarrow> char" where
  "lower_char c = (if is_upper c then char_of ((of_char c :: nat) + 32) else c)"

definition upper :: "string \<Rightarrow> string" where
  "upper s = map upper_char s"

definition lower :: "string \<Rightarrow> string" where
  "lower s = map lower_char s"

text \<open>\<open>re.sub(r'\s+', '', s)\<close>: every whitespace character is deleted.\<close>

definition remove_ws :: "string \<Rightarrow> string" where
  "remove_ws s = filter (\<lambda>c. \<not> is_space c) s"

text \<open>\<open>s.strip()\<close>.\<close>

definition strip :: "string \<Rightarrow> string" where
  "strip s = rev (dropWhile is_space (rev (dropWhile is_space s)))"

section \<open>SKU normalisation\<close>

text \<open>
  AK Interactive, \<open>normalize_sku\<close>:
  \<^verbatim>\<open>
    if not sku: return ''
    return re.sub(r'\s+', '', sku.upper())
  \<close>
\<close>

definition ak_normalize_sku :: "string \<Rightarrow> string" where
  "ak_normalize_sku sku = (if sku = [] then [] else remove_ws (upper sku))"

text \<open>
  Vallejo, \<open>normalize_sku\<close>: whitespace is removed and a SKU of five bare digits gets a dot
  after the second. \<open>re.match(r'^\d{5}$', sku)\<close> accepts five digits, and also five digits
  followed by one final newline, since \<open>$\<close> matches before a trailing newline.
\<close>

definition match_5digits :: "string \<Rightarrow> bool" where
  "match_5digits s \<longleftrightarrow>
     (length s = 5 \<and> list_all is_digit s) \<or>
     (length s = 6 \<and> list_all is_digit (take 5 s) \<and> drop 5 s = [CHR 0x0A])"

definition vallejo_normalize_sku :: "string \<Rightarrow> string" where
  "vallejo_normalize_sku sku =
     (if sku = [] then []
      else let s = strip (remove_ws sku)
           in if match_5digits s then take 2 s @ ''.'' @ drop 2 s else s)"

text \<open>
  Citadel, \<open>normalize_sku\<close>:
  \<^verbatim>\<open>
    if not sku: return ''
    match = re.search(r'(\d{11})', sku)
    return match.group(1) if match else re.sub(r'\s+', '', sku).strip()
  \<close>
  \<open>search_11digits\<close> is \<open>re.search(r'(\d{11})', s)\<close>: the leftmost eleven consecutive digits.
\<close>

definition digits11_here :: "string \<Rightarrow> bool" where
  "digits11_here s \<longleftrightarrow> 11 \<le> length s \<and> list_all is_digit (take 11 s)"

fun search_11digits :: "string \<Rightarrow> string option" where
  "search_11digits [] = None"
| "search_11digits (c # cs) =
     (if digits11_here (c # cs) then Some (take 11 (c # cs)) else search_11digits cs)"

definition citadel_normalize_sku :: "string \<Rightarrow> string" where
  "citadel_normalize_sku sku =
     (if sku = [] then []
      else case search_11digits sku of
             Some d \<Rightarrow> d
           | None \<Rightarrow> strip (remove_ws sku))"

text \<open>
  \<open>normalize_sku\<close> applied to a dictionary value: \<open>None\<close> is falsy and gives the empty
  string, as the guard \<open>if not sku\<close> does.
\<close>

definition on_val :: "(string \<Rightarrow> string) \<Rightarrow> val \<Rightarrow> string" where
  "on_val f v = (case v of Null \<Rightarrow> [] | Str s \<Rightarrow> f s)"

text \<open>
  A Citadel SKU is valid when it carries the eleven-digit product code that
  \<open>normalize_sku\<close> extracts, or when it has no whitespace to remove.
\<close>

definition citadel_valid_sku :: "string \<Rightarrow> bool" where
  "citadel_valid_sku s \<longleftrightarrow> search_11digits s \<noteq> None \<or> list_all (\<lambda>c. \<not> is_space c) s"

section \<open>Paint type derivation\<close>

text \<open>\<open>sub in s\<close> on strings: \<open>sub\<close> occurs in \<open>s\<close> as a contiguous substring.\<close>

fun starts_with :: "string \<Rightarrow> string \<Rightarrow> bool" where
  "starts_with s [] = True"
| "starts_with [] (p # ps) = False"
| "starts_with (c # cs) (p # ps) = (c = p \<and> starts_with cs ps)"

fun contains :: "string \<Rightarrow> string \<Rightarrow> bool" where
  "contains sub [] = (sub = [])"
| "contains sub (c # cs) = (starts_with (c # cs) sub \<or> contains sub cs)"

text \<open>The class \<open>\w\<close> on ASCII: letters, digits and the underscore.\<close>

definition is_word :: "char \<Rightarrow> bool" where
  "is_word c \<longleftrightarrow> is_lower c \<or> is_upper c \<or> is_digit c \<or> c = CHR ''_''"

text \<open>
  A raw scraped record of AK Interactive or Vallejo: the dictionary built by
  \<open>extract_paints_from_page\<close>, with the keys added by \<open>sample_paint_color\<close> and the
  scrape loop. The key \<open>name\<close> is read by Vallejo's \<open>get_paint_type\<close> only and holds a
  string when it is present.
\<close>

record paint =
  p_title :: "val option"
  p_sku :: "val option"
  p_img_url :: "val option"
  p_product_url :: "val option"
  p_hex :: "val option"
  p_category :: "val option"
  p_paint_type :: "val option"
  p_range_name :: "val option"
  p_name :: "string option"

text \<open>
  AK Interactive, \<open>get_paint_type\<close>. The override for mediums is the search
  \<^verbatim>\<open>re.search(r'\bmedium\s+(for|gen|paint)|medium$', name)\<close>:
  at some position either \<open>medium\<close> starts a word, is followed by whitespace and then by
  \<open>for\<close>, \<open>gen\<close> or \<open>paint\<close>, or \<open>medium\<close> ends the name (\<open>$\<close> also matches before one
  final newline). \<open>medium_at prev_word s\<close> tests both alternatives at the head of \<open>s\<close>, where
  \<open>prev_word\<close> tells whether the character before is a word character.
\<close>

definition medium_at :: "bool \<Rightarrow> string \<Rightarrow> bool" where
  "medium_at prev_word s \<longleftrightarrow>
     (\<not> prev_word \<and> starts_with s ''medium'' \<and>
        (let r = drop 6 s; r' = dropWhile is_space r
         in r' \<noteq> r \<and> (starts_with r' ''for'' \<or> starts_with r' ''gen'' \<or> starts_with r' ''paint'')))
     \<or> s = ''medium'' \<or> s = ''medium'' @ [CHR 0x0A]"

fun search_medium_from :: "bool \<Rightarrow> string \<Rightarrow> bool" where
  "search_medium_from prev_word [] = False"
| "search_medium_from prev_word (c # cs) =
     (medium_at prev_word (c # cs) \<or> search_medium_from (is_word c) cs)"

definition search_medium :: "string \<Rightarrow> bool" where
  "search_medium name = search_medium_from False name"

definition ak_get_paint_type :: "paint \<Rightarrow> string \<Rightarrow> string" where
  "ak_get_paint_type paint range_type =
     (let name = lower (or_empty (get (p_title paint))) in
      if contains ''varnish'' name then ''varnish''
      else if contains ''thinner'' name then ''thinner''
      else if contains ''primer'' name then ''primer''
      else if search_medium name then ''technical''
      else if contains ''metallic'' name \<or> contains ''metal'' name then ''metallic''
      else range_type)"

text \<open>
  Vallejo, \<open>get_paint_type\<close>: the table \<open>TYPE_OVERRIDES\<close> is walked in insertion order and
  a keyword matches as a substring of the lowercased name. The two accented keywords are
  written with their UTF-8 bytes.
\<close>

definition vallejo_TYPE_OVERRIDES :: "(string \<times> string) list" where
  "vallejo_TYPE_OVERRIDES =
     [(''varnish'', ''varnish''), (''barniz'', ''varnish''),
      (''thinner'', ''thinner''), (''diluyente'', ''thinner''),
      (''primer'', ''primer''), (''imprimaci'' @ [CHR 0xC3, CHR 0xB3] @ ''n'', ''primer''),
      (''medium'', ''technical''), (''retarder'', ''technical''), (''retardante'', ''technical''),
      (''glaze'', ''transparent''), (''ink'', ''ink''), (''tinta'', ''ink''), (''wash'', ''wash''),
      (''metallic'', ''metallic''), (''metal'', ''metallic''), (''chrome'', ''metallic''),
      (''gold'', ''metallic''), (''silver'', ''metallic''), (''copper'', ''metallic''),
      (''bronze'', ''metallic'')]"

fun vallejo_overrides :: "string \<Rightarrow> string \<Rightarrow> (string \<times> string) list \<Rightarrow> string" where
  "vallejo_overrides name default_type [] = default_type"
| "vallejo_overrides name default_type ((keyword, paint_type) # rest) =
     (if contains keyword name then
        (if paint_type = ''metallic'' \<and> default_type \<noteq> ''metallic'' then
           (if list_ex (\<lambda>m. contains m name)
                 [''metallic'', ''metal color'', ''liquid metal'', ''chrome'']
            then ''metallic''
            else vallejo_overrides name default_type rest)
         else paint_type)
      else vallejo_overrides name default_type rest)"

definition vallejo_get_paint_type :: "paint \<Rightarrow> string \<Rightarrow> string" where
  "vallejo_get_paint_type paint default_type =
     (let t = get (p_title paint);
          name = lower (if truthy t then or_empty t
                        else (case p_name paint of None \<Rightarrow> [] | Some n \<Rightarrow> n))
      in vallejo_overrides name default_type vallejo_TYPE_OVERRIDES)"

text \<open>Citadel, \<open>get_paint_type(name, category, colour_range)\<close>.\<close>

definition VARNISH_PAINTS :: "string list" where
  "VARNISH_PAINTS = [[CHR 0x27] @ ''Ardcoat'', ''Ardcoat'', ''Stormshield'', ''Munitorum Varnish'']"

definition THINNER_PAINTS :: "string list" where
  "THINNER_PAINTS = [''Lahmian Medium'', ''Contrast Medium'', ''Air Caste Thinner'']"

definition citadel_TYPE_OVERRIDES :: "(string \<times> string) list" where
  "citadel_TYPE_OVERRIDES =
     [(''varnish'', ''varnish''), (''thinner'', ''thinner''), (''medium'', ''thinner''),
      (''primer'', ''primer''), (''undercoat'', ''primer''), (''glaze'', ''transparent''),
      (''ink'', ''ink'')]"

definition METALLIC_RANGES :: "string list" where
  "METALLIC_RANGES = [''Gold'', ''Silver'', ''Bronze'', ''Brass'', ''Copper'']"

definition metallic_keywords :: "string list" where
  "metallic_keywords =
     [''gold'', ''silver'', ''brass'', ''bronze'', ''copper'', ''steel'',
      ''iron'', ''leadbelcher'', ''runefang'', ''stormhost'', ''retributor'',
      ''balthasar'', ''gehenna'', ''auric'', ''liberator'', ''sycorax'',
      ''canoptek'', ''runelord'', ''castellax'', ''hashut'', ''fulgurite'',
      ''skullcrusher'', ''brass scorpion'', ''ironbreaker'', ''necron compound'',
      ''golden griffon'', ''sigmarite'', ''thallax'', ''valdor'']"

definition CITADEL_CATEGORIES :: "(string \<times> string) list" where
  "CITADEL_CATEGORIES =
     [(''Base'', ''opaque''), (''Layer'', ''opaque''), (''Shade'', ''wash''), (''Dry'', ''opaque''),
      (''Contrast'', ''contrast''), (''Technical'', ''technical''), (''Spray'', ''spray''),
      (''Air'', ''air'')]"

fun first_override :: "string \<Rightarrow> (string \<times> string) list \<Rightarrow> string option" where
  "first_override name [] = None"
| "first_override name ((keyword, paint_type) # rest) =
     (if contains keyword name then Some paint_type else first_override name rest)"

definition citadel_get_paint_type :: "string \<Rightarrow> string \<Rightarrow> val \<Rightarrow> string" where
  "citadel_get_paint_type name category colour_range =
     (if name \<in> set VARNISH_PAINTS then ''varnish''
      else if name \<in> set THINNER_PAINTS then ''thinner''
      else let name_lower = lower name in
        case first_override name_lower citadel_TYPE_OVERRIDES of
          Some paint_type \<Rightarrow> paint_type
        | None \<Rightarrow>
            if colour_range \<in> Str ` set METALLIC_RANGES then ''metallic''
            else if list_ex (\<lambda>kw. contains kw name_lower) metallic_keywords then ''metallic''
            else (case map_of CITADEL_CATEGORIES category of
                    Some t \<Rightarrow> t
                  | None \<Rightarrow> ''opaque''))"

section \<open>Catalogue assembler\<close>

text \<open>
  A catalogue entry as \<open>generate_catalogue\<close> builds it. The keys \<open>brandData\<close> (always the
  empty dictionary) and \<open>impcat\<close> (always two nulls) are constants and left out. \<open>name\<close>,
  \<open>hex\<close>, \<open>category\<close>, \<open>range\<close>, \<open>type\<close> and \<open>url\<close> are copied from the raw record and can
  be \<open>None\<close>; \<open>sku\<close>, \<open>id\<close> and \<open>brand\<close> are always strings.
\<close>

record entry =
  e_brand :: string
  e_category :: val
  e_discontinued :: bool
  e_hex :: val
  e_id :: string
  e_name :: val
  e_range :: val
  e_sku :: string
  e_type :: val
  e_url :: val

text \<open>
  The display name of an entry. \<open>url_name\<close> stands for
  \<^verbatim>\<open>url.rstrip('/').split('/')[-1].replace('-', ' ').title()\<close> and \<open>clean_name\<close> for
  \<^verbatim>\<open>clean_paint_name(to_sentence_case(name))\<close>. Both only shape the \<open>name\<close> field; they are
  parameters of the assembler here, so that every result below holds whatever they compute.
\<close>

definition entry_name :: "(string \<Rightarrow> string) \<Rightarrow> (string \<Rightarrow> string) \<Rightarrow> paint \<Rightarrow> val" where
  "entry_name url_name clean_name paint =
     (let name = get (p_title paint);
          name = (if \<not> truthy name \<and> truthy (get (p_product_url paint))
                  then Str (url_name (or_empty (get (p_product_url paint))))
                  else name)
      in if truthy name then Str (clean_name (or_empty name)) else name)"

definition ak_entry ::
  "(string \<Rightarrow> string) \<Rightarrow> (string \<Rightarrow> string) \<Rightarrow> string \<Rightarrow> paint \<Rightarrow> string \<Rightarrow> entry" where
  "ak_entry url_name clean_name range_name paint sku_clean =
     \<lparr>e_brand = ''AK Interactive'',
      e_category = get_default (p_category paint) [],
      e_discontinued = False,
      e_hex = get_default (p_hex paint) [],
      e_id = ''ak-interactive-'' @ lower sku_clean,
      e_name = entry_name url_name clean_name paint,
      e_range = Str range_name,
      e_sku = sku_clean,
      e_type = get_default (p_paint_type paint) [],
      e_url = get_default (p_product_url paint) []\<rparr>"

text \<open>
  The loop of AK's \<open>generate_catalogue\<close> over the scraped records, with the catalogue built
  so far and the dictionary \<open>seen_skus\<close> from a normalised SKU to its index in the catalogue.
  A record with a falsy \<open>sku\<close> is skipped; a duplicate only upgrades a \<open>General\<close> category.
\<close>

fun ak_catalogue_loop ::
  "(string \<Rightarrow> string) \<Rightarrow> (string \<Rightarrow> string) \<Rightarrow> string \<Rightarrow> paint list \<Rightarrow>
   entry list \<Rightarrow> (string \<rightharpoonup> nat) \<Rightarrow> entry list" where
  "ak_catalogue_loop un cn range_name [] catalogue seen_skus = catalogue"
| "ak_catalogue_loop un cn range_name (paint # rest) catalogue seen_skus =
     (let sku = get_default (p_sku paint) [] in
      if \<not> truthy sku then ak_catalogue_loop un cn range_name rest catalogue seen_skus
      else
        let sku_clean = on_val ak_normalize_sku sku in
        case seen_skus sku_clean of
          Some existing_idx \<Rightarrow>
            (let existing_cat = e_category (catalogue ! existing_idx);
                 new_cat = get_default (p_category paint) []
             in if existing_cat = Str ''General'' \<and> truthy new_cat \<and> new_cat \<noteq> Str ''General''
                then ak_catalogue_loop un cn range_name rest
                       (catalogue[existing_idx := (catalogue ! existing_idx)\<lparr>e_category := new_cat\<rparr>])
                       seen_skus
                else ak_catalogue_loop un cn range_name rest catalogue seen_skus)
        | None \<Rightarrow>
            ak_catalogue_loop un cn range_name rest
              (catalogue @ [ak_entry un cn range_name paint sku_clean])
              (seen_skus(sku_clean \<mapsto> length catalogue)))"

text \<open>\<open>catalogue.sort(key=lambda x: x['sku'])\<close>: a stable sort on the code points of the SKU.\<close>

definition ak_generate_catalogue ::
  "(string \<Rightarrow> string) \<Rightarrow> (string \<Rightarrow> string) \<Rightarrow> paint list \<Rightarrow> string \<Rightarrow> entry list" where
  "ak_generate_catalogue un cn scraped_data range_name =
     sort_key e_sku (ak_catalogue_loop un cn range_name scraped_data [] Map.empty)"

text \<open>Vallejo, \<open>generate_catalogue\<close>: duplicates are skipped outright.\<close>

definition replace_char :: "char \<Rightarrow> char \<Rightarrow> string \<Rightarrow> string" where
  "replace_char a b s = map (\<lambda>c. if c = a then b else c) s"

definition vallejo_entry ::
  "(string \<Rightarrow> string) \<Rightarrow> (string \<Rightarrow> string) \<Rightarrow> string \<Rightarrow> paint \<Rightarrow> string \<Rightarrow> entry" where
  "vallejo_entry url_name clean_name range_name paint sku_clean =
     \<lparr>e_brand = ''Vallejo'',
      e_category = Str [],
      e_discontinued = False,
      e_hex = get_default (p_hex paint) [],
      e_id = ''vallejo-'' @ lower (replace_char CHR ''.'' CHR ''-'' sku_clean),
      e_name = entry_name url_name clean_name paint,
      e_range = get_default (p_range_name paint) range_name,
      e_sku = sku_clean,
      e_type = get_default (p_paint_type paint) ''opaque'',
      e_url = get_default (p_product_url paint) []\<rparr>"

fun vallejo_catalogue_loop ::
  "(string \<Rightarrow> string) \<Rightarrow> (string \<Rightarrow> string) \<Rightarrow> string \<Rightarrow> paint list \<Rightarrow>
   entry list \<Rightarrow> (string \<rightharpoonup> nat) \<Rightarrow> entry list" where
  "vallejo_catalogue_loop un cn range_name [] catalogue seen_skus = catalogue"
| "vallejo_catalogue_loop un cn range_name (paint # rest) catalogue seen_skus =
     (let sku = get_default (p_sku paint) [] in
      if \<not> truthy sku then vallejo_catalogue_loop un cn range_name rest catalogue seen_skus
      else
        let sku_clean = on_val vallejo_normalize_sku sku in
        case seen_skus sku_clean of
          Some existing_idx \<Rightarrow> vallejo_catalogue_loop un cn range_name rest catalogue seen_skus
        | None \<Rightarrow>
            vallejo_catalogue_loop un cn range_name rest
              (catalogue @ [vallejo_entry un cn range_name paint sku_clean])
              (seen_skus(sku_clean \<mapsto> length catalogue)))"

definition vallejo_generate_catalogue ::
  "(string \<Rightarrow> string) \<Rightarrow> (string \<Rightarrow> string) \<Rightarrow> paint list \<Rightarrow> string \<Rightarrow> entry list" where
  "vallejo_generate_catalogue un cn scraped_data range_name =
     sort_key e_sku (vallejo_catalogue_loop un cn range_name scraped_data [] Map.empty)"

text \<open>
  Citadel: a hit of the search index as \<open>extract_paints_from_har\<close> keeps it, with the key
  \<open>_hex\<close> added by \<open>sample_paint_color\<close>. \<open>name\<close> and \<open>slug\<close> hold strings when present and
  \<open>paintType\<close> a list of strings.
\<close>

record hit =
  h_sku :: "val option"
  h_name :: "string option"
  h_paintType :: "string list option"
  h_paintColourRange :: "val option"
  h_isAvailable :: "bool option"
  h_hex :: "val option"
  h_slug :: "string option"

definition citadel_entry :: "string option \<Rightarrow> hit \<Rightarrow> string \<Rightarrow> entry" where
  "citadel_entry category paint sku =
     (let name = (case h_name paint of None \<Rightarrow> ''Unknown'' | Some n \<Rightarrow> n);
          paint_types = (case h_paintType paint of None \<Rightarrow> [] | Some ts \<Rightarrow> ts);
          paint_category =
            (case paint_types of
               t # ts \<Rightarrow> t
             | [] \<Rightarrow> (case category of
                        None \<Rightarrow> ''Unknown''
                      | Some c \<Rightarrow> if c = [] then ''Unknown'' else c));
          colour_range = get (h_paintColourRange paint)
      in \<lparr>e_brand = ''Games Workshop'',
          e_category = Str paint_category,
          e_discontinued = (\<not> (case h_isAvailable paint of None \<Rightarrow> True | Some b \<Rightarrow> b)),
          e_hex = get (h_hex paint),
          e_id = ''citadel-'' @ sku,
          e_name = Str name,
          e_range = Str ''Citadel'',
          e_sku = sku,
          e_type = Str (citadel_get_paint_type name paint_category colour_range),
          e_url = Str (''https://www.warhammer.com/en-GB/shop/'' @
                       (case h_slug paint of None \<Rightarrow> [] | Some sl \<Rightarrow> sl))\<rparr>)"

fun citadel_catalogue_loop ::
  "string option \<Rightarrow> hit list \<Rightarrow> entry list \<Rightarrow> (string \<rightharpoonup> nat) \<Rightarrow> entry list" where
  "citadel_catalogue_loop category [] catalogue seen_skus = catalogue"
| "citadel_catalogue_loop category (paint # rest) catalogue seen_skus =
     (let raw_sku = get_default (h_sku paint) [];
          sku = on_val citadel_normalize_sku raw_sku
      in if sku = [] then citadel_catalogue_loop category rest catalogue seen_skus
         else case seen_skus sku of
                Some existing_idx \<Rightarrow> citadel_catalogue_loop category rest catalogue seen_skus
              | None \<Rightarrow>
                  citadel_catalogue_loop category rest
                    (catalogue @ [citadel_entry category paint sku])
                    (seen_skus(sku \<mapsto> length catalogue)))"

text \<open>\<open>catalogue.sort(key=lambda x: x['name'])\<close>: Citadel sorts by name.\<close>

definition citadel_generate_catalogue :: "hit list \<Rightarrow> string option \<Rightarrow> entry list" where
  "citadel_generate_catalogue scraped_data category =
     sort_key (\<lambda>x. or_empty (e_name x)) (citadel_catalogue_loop category scraped_data [] Map.empty)"

text \<open>
  The join key of a raw record, as the guards of the three loops compute it: no key for a
  record the loop skips.
\<close>

definition ak_key :: "paint \<Rightarrow> string option" where
  "ak_key paint =
     (let sku = get_default (p_sku paint) []
      in if truthy sku then Some (on_val ak_normalize_sku sku) else None)"

definition vallejo_key :: "paint \<Rightarrow> string option" where
  "vallejo_key paint =
     (let sku = get_default (p_sku paint) []
      in if truthy sku then Some (on_val vallejo_normalize_sku sku) else None)"

definition citadel_key :: "hit \<Rightarrow> string option" where
  "citadel_key paint =
     (let sku = on_val citadel_normalize_sku (get_default (h_sku paint) [])
      in if sku = [] then None else Some sku)"

text \<open>
  The records that open a new entry, each with its key: those whose key is neither in
  \<open>S\<close> nor the key of an earlier record. The loops are compared with this list below.
\<close>

fun new_recs :: "('p \<Rightarrow> string option) \<Rightarrow> 'p list \<Rightarrow> string set \<Rightarrow> ('p \<times> string) list" where
  "new_recs key [] S = []"
| "new_recs key (p # ps) S =
     (case key p of
        None \<Rightarrow> new_recs key ps S
      | Some k \<Rightarrow> if k \<in> S then new_recs key ps S else (p, k) # new_recs key ps (insert k S))"

text \<open>Example records for the concrete instances below.\<close>

definition raw_record :: "string \<Rightarrow> string \<Rightarrow> paint" where
  "raw_record t s =
     \<lparr>p_title = Some (Str t), p_sku = Some (Str s), p_img_url = None, p_product_url = None,
      p_hex = None, p_category = None, p_paint_type = None, p_range_name = None, p_name = None\<rparr>"

definition raw_hit :: "string \<Rightarrow> string \<Rightarrow> hit" where
  "raw_hit n s =
     \<lparr>h_sku = Some (Str s), h_name = Some n, h_paintType = None, h_paintColourRange = None,
      h_isAvailable = None, h_hex = None, h_slug = None\<rparr>"

section \<open>Paginated scrape loops\<close>

text \<open>
  AK Interactive, \<open>is_paint_product\<close>: the upper-cased SKU must match
  \<^verbatim>\<open>^(AK\d+|RCS\d+|RCM\d+|RC\d+|AKM\d+)$\<close> and must not be in the cache of set SKUs
  (the global \<open>_SET_SKUS_CACHE\<close>, a parameter here). \<open>digits_to_end\<close> is \<open>\d+$\<close>: one or more
  digits up to the end of the string or up to one final newline.
\<close>

definition digits_to_end :: "string \<Rightarrow> bool" where
  "digits_to_end r \<longleftrightarrow>
     (let d = takeWhile is_digit r; t = dropWhile is_digit r
      in d \<noteq> [] \<and> (t = [] \<or> t = [CHR 0x0A]))"

definition valid_sku_pattern :: "string \<Rightarrow> bool" where
  "valid_sku_pattern sku \<longleftrightarrow>
     list_ex (\<lambda>prefix. starts_with sku prefix \<and> digits_to_end (drop (length prefix) sku))
       [''AK'', ''RCS'', ''RCM'', ''RC'', ''AKM'']"

definition is_set_sku :: "string set \<Rightarrow> string \<Rightarrow> bool" where
  "is_set_sku set_skus_cache sku \<longleftrightarrow> sku \<noteq> [] \<and> upper sku \<in> set_skus_cache"

definition ak_is_paint_product :: "string set \<Rightarrow> paint \<Rightarrow> bool" where
  "ak_is_paint_product set_skus_cache paint =
     (let sku = upper (or_empty (get (p_sku paint))) in
      if \<not> valid_sku_pattern sku then False
      else if is_set_sku set_skus_cache sku then False
      else True)"

text \<open>\<open>dedupe_by_name\<close>: a record whose SKU was seen before is skipped.\<close>

fun dedupe_loop :: "paint list \<Rightarrow> string set \<Rightarrow> paint list" where
  "dedupe_loop [] seen_skus = []"
| "dedupe_loop (paint # rest) seen_skus =
     (let sku = or_empty (get (p_sku paint)) in
      if sku \<noteq> [] \<and> sku \<in> seen_skus then dedupe_loop rest seen_skus
      else paint # dedupe_loop rest (if sku \<noteq> [] then insert sku seen_skus else seen_skus))"

definition dedupe_by_name :: "paint list \<Rightarrow> paint list" where
  "dedupe_by_name paints = dedupe_loop paints {}"

definition COLOR_RANGES_3GEN :: "(string \<times> string) list" where
  "COLOR_RANGES_3GEN =
     [(''3gen-color-punch'', ''Color Punch''), (''general'', ''General''), (''afv'', ''AFV''),
      (''air'', ''AIR''), (''acrylic-effect'', ''Effect''), (''fantasy'', ''Fantasy''),
      (''figures'', ''Figures''), (''intense'', ''Intense''), (''metallic'', ''Metallic''),
      (''pastel'', ''Pastel''), (''standard'', ''Standard''), (''wargame'', ''Wargame'')]"

definition RANGE_TO_TYPE :: "(string \<times> string) list" where
  "RANGE_TO_TYPE =
     [(''standard'', ''opaque''), (''general'', ''opaque''), (''afv'', ''opaque''),
      (''figures'', ''opaque''), (''intense'', ''opaque''), (''pastel'', ''opaque''),
      (''wargame'', ''opaque''), (''3gen-color-punch'', ''opaque''),
      (''acrylic-effect'', ''opaque''), (''fantasy'', ''opaque''), (''air'', ''air''),
      (''metallic'', ''metallic''), (''quick-gen'', ''contrast''), (''real-colors'', ''opaque''),
      (''rc-markers'', ''opaque''), (''playmarkers'', ''opaque''), (''deep-shades'', ''wash''),
      (''the-inks'', ''ink''), (''acrylic-wash'', ''wash'')]"

definition get_category :: "string \<Rightarrow> string" where
  "get_category color_range =
     (case map_of COLOR_RANGES_3GEN color_range of Some c \<Rightarrow> c | None \<Rightarrow> [])"

text \<open>
  \<open>sample_paint_color\<close>. Downloading and sampling the image is the parameter \<open>sample_image\<close>,
  from the image URL and the range hint to a hex string or \<open>None\<close>.
\<close>

definition ak_sample_paint_color :: "(string \<Rightarrow> string \<Rightarrow> val) \<Rightarrow> string \<Rightarrow> paint \<Rightarrow> paint" where
  "ak_sample_paint_color sample_image range_hint paint =
     (let img_url = get (p_img_url paint);
          img_url = (if range_hint = ''rc-markers'' \<and> truthy (get (p_sku paint))
                     then Str (''https://ak-interactive.com/wp-content/uploads/2024/06/'' @
                               upper (or_empty (get (p_sku paint))) @ ''_detail.jpg'')
                     else img_url)
      in if truthy img_url
         then paint\<lparr>p_hex := Some (sample_image (or_empty img_url) range_hint)\<rparr>
         else paint)"

text \<open>
  What one fetch gives the loop: an exception, or the page with the raw items that
  \<open>extract_paints_from_page\<close> finds on it and the answer of \<open>has_next_page\<close>.
\<close>

datatype fetched = FetchError | Soup "paint list" bool

text \<open>
  The paints of one page after the product filter and the deduplication, and what the
  block \<open>if paints:\<close> does with them: colour sampling (when asked for) and the category and
  type of the range.
\<close>

definition ak_filter_page :: "string set \<Rightarrow> paint list \<Rightarrow> paint list" where
  "ak_filter_page set_skus_cache raw =
     dedupe_by_name (filter (ak_is_paint_product set_skus_cache) raw)"

definition ak_tag_paints ::
  "(string \<Rightarrow> string \<Rightarrow> val) \<Rightarrow> bool \<Rightarrow> string \<Rightarrow> paint list \<Rightarrow> paint list" where
  "ak_tag_paints sample_image sample_colors color_range paints =
     (let paints = (if sample_colors
                    then map (ak_sample_paint_color sample_image color_range) paints
                    else paints);
          category = get_category color_range;
          range_type = (case map_of RANGE_TO_TYPE color_range of Some t \<Rightarrow> t | None \<Rightarrow> [])
      in map (\<lambda>paint. paint\<lparr>p_category := Some (Str category),
                               p_paint_type := Some (Str (ak_get_paint_type paint range_type))\<rparr>)
           paints)"

text \<open>
  The loop of \<open>scrape_color_range\<close>, from page \<open>page\<close> on, with the paints collected so far.
  Besides \<open>all_paints\<close> it returns the pages it has fetched, in order: the trace of its
  calls of \<open>fetch_page\<close>. The loop breaks on an exception, on a page without raw items
  (\<open>before_filter == 0\<close>), on a page without a next link, and after page 50.
\<close>

function ak_scrape_pages ::
  "(nat \<Rightarrow> fetched) \<Rightarrow> string set \<Rightarrow> (string \<Rightarrow> string \<Rightarrow> val) \<Rightarrow> bool \<Rightarrow> string \<Rightarrow>
   nat \<Rightarrow> paint list \<Rightarrow> nat list \<Rightarrow> paint list \<times> nat list" where
  "ak_scrape_pages fetch_page set_skus_cache sample_image sample_colors color_range
       page all_paints fetched =
     (if page \<le> 50 then
        (case fetch_page page of
           FetchError \<Rightarrow> (all_paints, fetched @ [page])
         | Soup raw has_next \<Rightarrow>
             (let before_filter = length raw;
                  paints = ak_filter_page set_skus_cache raw
              in if before_filter = 0 then (all_paints, fetched @ [page])
                 else
                   let all_paints =
                         (if paints \<noteq> []
                          then all_paints @ ak_tag_paints sample_image sample_colors color_range paints
                          else all_paints)
                   in if \<not> has_next then (all_paints, fetched @ [page])
                      else ak_scrape_pages fetch_page set_skus_cache sample_image sample_colors
                             color_range (page + 1) all_paints (fetched @ [page])))
      else (all_paints, fetched))"
  by pat_completeness auto
termination
  by (relation "measure (\<lambda>(f, s, i, c, r, page, a, t). 51 - page)") auto

definition scrape_color_range ::
  "(nat \<Rightarrow> fetched) \<Rightarrow> string set \<Rightarrow> (string \<Rightarrow> string \<Rightarrow> val) \<Rightarrow> bool \<Rightarrow> string \<Rightarrow>
   paint list \<times> nat list" where
  "scrape_color_range fetch_page set_skus_cache sample_image sample_colors color_range =
     ak_scrape_pages fetch_page set_skus_cache sample_image sample_colors color_range 1 [] []"

text \<open>
  Vallejo. \<open>is_paint_product\<close> rejects a record whose lowercased title or URL contains one
  of \<open>EXCLUDE_KEYWORDS\<close> (accented letters are written with their UTF-8 bytes).
\<close>

definition vallejo_EXCLUDE_KEYWORDS :: "string list" where
  "vallejo_EXCLUDE_KEYWORDS =
     [''brush'', ''pincel'', ''guide'', ''gu'' @ [CHR 0xC3, CHR 0xAD] @ ''a'', ''cleaner'',
      ''limpiador'', '' set'', ''pack'', ''bundle'', ''kit'', ''book'', ''magazine'', ''revista'',
      ''full range'', ''combo'', ''collection'', ''colecci'' @ [CHR 0xC3, CHR 0xB3] @ ''n'',
      ''colors set'', ''colours set'', ''paint set'', ''color set'', ''colour set'', ''range box'',
      ''case'', ''suitcase'', ''maleta'', ''all colors'', ''all colours'', ''complete range'',
      ''super pack'', ''display'', ''expositor'', ''stand'', ''rack'',
      ''airbrush'', ''aer'' @ [CHR 0xC3, CHR 0xB3] @ ''grafo'', ''compressor'', ''stencil'',
      ''plantilla'', ''tool'', ''herramienta'', ''knife'', ''cutter'', ''tweezer'', ''pinza'',
      ''scenery'', ''scenics'', ''grass'', ''hierba'', ''flock'', ''tuft'']"

definition vallejo_is_paint_product :: "paint \<Rightarrow> bool" where
  "vallejo_is_paint_product paint =
     (let title = lower (or_empty (get (p_title paint)));
          url = lower (or_empty (get (p_product_url paint)))
      in \<not> list_ex (\<lambda>keyword. contains keyword title \<or> contains keyword url)
              vallejo_EXCLUDE_KEYWORDS)"

text \<open>The table \<open>VALLEJO_RANGES\<close>: for each range key its name, range, type and URL.\<close>

record range_info =
  r_name :: string
  r_range :: string
  r_type :: string
  r_url :: string

definition vallejo_range :: "string \<Rightarrow> string \<Rightarrow> string \<Rightarrow> string \<times> range_info" where
  "vallejo_range key name type =
     (key, \<lparr>r_name = name, r_range = name, r_type = type,
             r_url = ''https://acrylicosvallejo.com/en/category/hobby/'' @ key @ ''/''\<rparr>)"

definition VALLEJO_RANGES :: "(string \<times> range_info) list" where
  "VALLEJO_RANGES =
     [vallejo_range ''model-color-en'' ''Model Color'' ''opaque'',
      (''model-air-en'', \<lparr>r_name = ''Model Air'', r_range = ''Model Air'', r_type = ''air'',
          r_url = ''https://acrylicosvallejo.com/en/category/model-air-en/''\<rparr>),
      vallejo_range ''game-color-en'' ''Game Color'' ''opaque'',
      vallejo_range ''game-air-en'' ''Game Air'' ''air'',
      vallejo_range ''xpress-color-en'' ''Xpress Color'' ''contrast'',
      vallejo_range ''mecha-color-en'' ''Mecha Color'' ''opaque'',
      vallejo_range ''metal-color-en'' ''Metal Color'' ''metallic'',
      vallejo_range ''liquid-metal-en'' ''Liquid Metal'' ''metallic'',
      vallejo_range ''true-metallic-metal-en'' ''True Metallic Metal'' ''metallic'',
      vallejo_range ''wash-fx-en'' ''Wash FX'' ''wash'',
      vallejo_range ''primers-en'' ''Primers'' ''primer'',
      vallejo_range ''premium-color-en'' ''Premium Color'' ''opaque'',
      vallejo_range ''hobby-paint'' ''Hobby Paint'' ''opaque'']"

definition RANGE_SKU_EXCLUSIONS :: "(string \<times> string list) list" where
  "RANGE_SKU_EXCLUSIONS = [(''metal-color-en'', [''77.660''])]"

definition vallejo_sample_paint_color ::
  "(string \<Rightarrow> string \<Rightarrow> val) \<Rightarrow> string \<Rightarrow> paint \<Rightarrow> paint" where
  "vallejo_sample_paint_color sample_image range_hint paint =
     (let img_url = get (p_img_url paint)
      in if truthy img_url
         then paint\<lparr>p_hex := Some (sample_image (or_empty img_url) range_hint)\<rparr>
         else paint)"

text \<open>
  What one fetch gives Vallejo's loop: an exception, or the page with its raw items and the
  link \<open>get_next_page_url\<close> finds on it.
\<close>

datatype vfetched = VFetchError | VSoup "paint list" val

text \<open>The paints of one page: SKUs normalised, product filter, exclusions of the range.\<close>

definition vallejo_filter_page :: "bool \<Rightarrow> string \<Rightarrow> paint list \<Rightarrow> paint list" where
  "vallejo_filter_page filter_products range_key raw =
     (let paints = map (\<lambda>paint. if truthy (get (p_sku paint))
                                 then paint\<lparr>p_sku := Some (Str (on_val vallejo_normalize_sku
                                                                  (get (p_sku paint))))\<rparr>
                                 else paint) raw;
          paints = (if filter_products then filter vallejo_is_paint_product paints else paints);
          excluded_skus = (case map_of RANGE_SKU_EXCLUSIONS range_key of
                             Some skus \<Rightarrow> skus | None \<Rightarrow> [])
      in if excluded_skus \<noteq> []
         then filter (\<lambda>p. get (p_sku p) \<notin> Str ` set excluded_skus) paints
         else paints)"

definition vallejo_tag_paints ::
  "(string \<Rightarrow> string \<Rightarrow> val) \<Rightarrow> bool \<Rightarrow> string \<Rightarrow> range_info \<Rightarrow> paint list \<Rightarrow> paint list" where
  "vallejo_tag_paints sample_image sample_colors range_key info paints =
     (let paints = (if sample_colors
                    then map (vallejo_sample_paint_color sample_image range_key) paints
                    else paints)
      in map (\<lambda>paint. paint\<lparr>p_paint_type := Some (Str (vallejo_get_paint_type paint (r_type info))),
                               p_range_name := Some (Str (r_range info))\<rparr>)
           paints)"

text \<open>
  The loop of \<open>scrape_range\<close>: \<open>while current_url\<close>, following the next links of the pages.
  Nothing bounds the number of pages, so the loop is a partial function: \<open>None\<close> is a run
  that never returns. It breaks on an exception, on a page that has no paints left after
  the filters (\<open>if not paints: break\<close>), and on a page without a next link. The second
  component is the trace of the URLs fetched.
\<close>

partial_function (option) vallejo_scrape_pages ::
  "(string \<Rightarrow> vfetched) \<Rightarrow> (string \<Rightarrow> string \<Rightarrow> val) \<Rightarrow> bool \<Rightarrow> bool \<Rightarrow> string \<Rightarrow> range_info \<Rightarrow>
   string \<Rightarrow> paint list \<Rightarrow> string list \<Rightarrow> (paint list \<times> string list) option" where
  "vallejo_scrape_pages fetch_page sample_image sample_colors filter_products range_key info
       current_url all_paints fetched =
     (if current_url \<noteq> [] then
        (case fetch_page current_url of
           VFetchError \<Rightarrow> Some (all_paints, fetched @ [current_url])
         | VSoup raw next_url \<Rightarrow>
             (let paints = vallejo_filter_page filter_products range_key raw
              in if paints = [] then Some (all_paints, fetched @ [current_url])
                 else
                   let all_paints =
                         all_paints @ vallejo_tag_paints sample_image sample_colors range_key info paints
                   in if truthy next_url
                      then vallejo_scrape_pages fetch_page sample_image sample_colors
                             filter_products range_key info (or_empty next_url) all_paints
                             (fetched @ [current_url])
                      else Some (all_paints, fetched @ [current_url])))
      else Some (all_paints, fetched))"

definition scrape_range ::
  "(string \<Rightarrow> vfetched) \<Rightarrow> (string \<Rightarrow> string \<Rightarrow> val) \<Rightarrow> bool \<Rightarrow> bool \<Rightarrow> string \<Rightarrow>
   (paint list \<times> string list) option" where
  "scrape_range fetch_page sample_image sample_colors filter_products range_key =
     (case map_of VALLEJO_RANGES range_key of
        None \<Rightarrow> Some ([], [])
      | Some info \<Rightarrow>
          vallejo_scrape_pages fetch_page sample_image sample_colors filter_products range_key
            info (r_url info) [] [])"

text \<open>
  A Vallejo listing of two pages: the first holds a brush set only and links to the
  second, which holds a paint.
\<close>

definition brush_site :: "string \<Rightarrow> vfetched" where
  "brush_site url =
     (if url = ''https://acrylicosvallejo.com/en/category/hobby/model-color-en/''
      then VSoup [raw_record ''Brush Set'' ''B01'']
             (Str ''https://acrylicosvallejo.com/en/category/hobby/model-color-en/page/2/'')
      else VSoup [raw_record ''Dark Red'' ''70.926''] Null)"

section \<open>Reconciliation of scraped records with catalogue files\<close>

text \<open>
  \<open>normalize_name\<close>, the lossy key for matching by name:
  \<^verbatim>\<open>
    name = name.lower()
    name = re.sub(r'[^\w\s]', '', name)
    name = re.sub(r'\s+', ' ', name).strip()
    for word in FILLERS: name = re.sub(rf'\b{word}\b', '', name)
    return re.sub(r'\s+', ' ', name).strip()
  \<close>
  \<open>collapse_ws\<close> is \<open>re.sub(r'\s+', ' ', s)\<close>: a run of whitespace becomes one blank (the flag
  tells whether the character before was whitespace). \<open>sub_word w\<close> is
  \<open>re.sub(r'\bw\b', '', s)\<close> for a word \<open>w\<close> of word characters: an occurrence of \<open>w\<close> that is
  not preceded and not followed by a word character is deleted; \<open>prev_word\<close> tells whether the
  character before is a word character and \<open>skip\<close> counts the characters of a match still to
  delete.
\<close>

fun collapse_ws_from :: "bool \<Rightarrow> string \<Rightarrow> string" where
  "collapse_ws_from prev_space [] = []"
| "collapse_ws_from prev_space (c # cs) =
     (if is_space c
      then (if prev_space then collapse_ws_from True cs else CHR '' '' # collapse_ws_from True cs)
      else c # collapse_ws_from False cs)"

definition collapse_ws :: "string \<Rightarrow> string" where
  "collapse_ws s = collapse_ws_from False s"

definition word_ends :: "string \<Rightarrow> bool" where
  "word_ends r \<longleftrightarrow> (case r of [] \<Rightarrow> True | c # cs \<Rightarrow> \<not> is_word c)"

fun sub_word_from :: "string \<Rightarrow> bool \<Rightarrow> nat \<Rightarrow> string \<Rightarrow> string" where
  "sub_word_from w prev_word skip [] = []"
| "sub_word_from w prev_word skip (c # cs) =
     (if 0 < skip then sub_word_from w True (skip - 1) cs
      else if \<not> prev_word \<and> starts_with (c # cs) w \<and> word_ends (drop (length w) (c # cs))
      then sub_word_from w True (length w - 1) cs
      else c # sub_word_from w (is_word c) 0 cs)"

definition sub_word :: "string \<Rightarrow> string \<Rightarrow> string" where
  "sub_word w s = sub_word_from w False 0 s"

definition normalize_name_with :: "string list \<Rightarrow> string \<Rightarrow> string" where
  "normalize_name_with fillers name =
     (if name = [] then []
      else let name = lower name;
               name = filter (\<lambda>c. is_word c \<or> is_space c) name;
               name = strip (collapse_ws name);
               name = foldl (\<lambda>name word. sub_word word name) name fillers
           in strip (collapse_ws name))"

definition ak_normalize_name :: "string \<Rightarrow> string" where
  "ak_normalize_name =
     normalize_name_with [''ak'', ''interactive'', ''acrylic'', ''paint'', ''color'', ''colour'']"

definition vallejo_normalize_name :: "string \<Rightarrow> string" where
  "vallejo_normalize_name =
     normalize_name_with [''vallejo'', ''acrylic'', ''paint'', ''color'', ''colour'']"

text \<open>
  An entry of an existing catalogue file, as loaded from JSON. The merge reads and writes
  the keys \<open>sku\<close>, \<open>name\<close>, \<open>hex\<close> and \<open>url\<close> only; every other key of the entry is carried
  along untouched and is not part of the record.
\<close>

record stored =
  s_sku :: "val option"
  s_name :: "val option"
  s_hex :: "val option"
  s_url :: "val option"

text \<open>
  The two shapes of a catalogue file: a plain list of entries, or an object with a key
  \<open>paints\<close> (its other keys are kept as they are). Anything else is not recognised.
\<close>

datatype catalogue =
    Flat "stored list"
  | Wrapper "(string \<times> val) list" "stored list"
  | Unrecognized

text \<open>The entries of a file, in either shape: what the code binds to \<open>paint_list\<close>.\<close>

definition paints_of :: "catalogue \<Rightarrow> stored list" where
  "paints_of data =
     (case data of
        Flat paint_list \<Rightarrow> paint_list
      | Wrapper other paint_list \<Rightarrow> paint_list
      | Unrecognized \<Rightarrow> [])"

text \<open>
  AK Interactive, \<open>update_existing_json\<close>. The lookup from normalised SKU to hex is filled
  from the records that have both a SKU and a hex; a later record overwrites an earlier one.
\<close>

fun sku_to_hex_loop :: "paint list \<Rightarrow> (string \<rightharpoonup> val) \<Rightarrow> (string \<rightharpoonup> val)" where
  "sku_to_hex_loop [] sku_to_hex = sku_to_hex"
| "sku_to_hex_loop (paint # rest) sku_to_hex =
     (if truthy (get (p_sku paint)) \<and> truthy (get (p_hex paint))
      then sku_to_hex_loop rest
             (sku_to_hex(on_val ak_normalize_sku (get (p_sku paint)) \<mapsto> get (p_hex paint)))
      else sku_to_hex_loop rest sku_to_hex)"

fun update_loop :: "(string \<rightharpoonup> val) \<Rightarrow> stored list \<Rightarrow> stored list \<times> nat" where
  "update_loop sku_to_hex [] = ([], 0)"
| "update_loop sku_to_hex (paint # rest) =
     (let sku = on_val ak_normalize_sku (get_default (s_sku paint) []);
          (rest', updated) = update_loop sku_to_hex rest
      in case sku_to_hex sku of
           Some h \<Rightarrow> (paint\<lparr>s_hex := Some h\<rparr> # rest', updated + 1)
         | None \<Rightarrow> (paint # rest', updated))"

text \<open>
  The result is the file as updated and the count that the function prints
  (\<open>Updated n paints with hex colors\<close>); a file that is not recognised is returned as it is
  and no count is printed.
\<close>

definition update_existing_json :: "catalogue \<Rightarrow> paint list \<Rightarrow> catalogue \<times> nat option" where
  "update_existing_json existing scraped_data =
     (let sku_to_hex = sku_to_hex_loop scraped_data Map.empty in
      case existing of
        Flat paint_list \<Rightarrow>
          (let (paint_list', updated) = update_loop sku_to_hex paint_list
           in (Flat paint_list', Some updated))
      | Wrapper other paint_list \<Rightarrow>
          (let (paint_list', updated) = update_loop sku_to_hex paint_list
           in (Wrapper other paint_list', Some updated))
      | Unrecognized \<Rightarrow> (Unrecognized, None))"

text \<open>
  \<open>batch_update_json_files\<close>, the same code in AK's and Vallejo's module up to the two
  normalisers, which are the parameters \<open>nsku\<close> and \<open>nname\<close>. The master lookups: by SKU the
  last record wins, by name the first.
\<close>

fun build_lookups ::
  "(string \<Rightarrow> string) \<Rightarrow> (string \<Rightarrow> string) \<Rightarrow> paint list \<Rightarrow>
   (string \<rightharpoonup> paint) \<Rightarrow> (string \<rightharpoonup> paint) \<Rightarrow> (string \<rightharpoonup> paint) \<times> (string \<rightharpoonup> paint)" where
  "build_lookups nsku nname [] sku_to_data name_to_data = (sku_to_data, name_to_data)"
| "build_lookups nsku nname (paint # rest) sku_to_data name_to_data =
     (if truthy (get (p_sku paint)) \<and> truthy (get (p_hex paint)) then
        (let norm_sku = on_val nsku (get (p_sku paint));
             sku_to_data = sku_to_data(norm_sku \<mapsto> paint);
             title = get_default (p_title paint) [];
             name_to_data =
               (if truthy title then
                  (let norm_name = on_val nname title
                   in if norm_name \<noteq> [] \<and> name_to_data norm_name = None
                      then name_to_data(norm_name \<mapsto> paint)
                      else name_to_data)
                else name_to_data)
         in build_lookups nsku nname rest sku_to_data name_to_data)
      else build_lookups nsku nname rest sku_to_data name_to_data)"

text \<open>
  The body of the loop over the entries of one file, for one entry: the entry as updated,
  whether it counts as updated, whether its SKU changed, and the SKU reported as not found
  in the scrape (if any).
\<close>

datatype match_type = BySku | ByName

definition find_match ::
  "(string \<Rightarrow> string) \<Rightarrow> (string \<Rightarrow> string) \<Rightarrow> (string \<rightharpoonup> paint) \<Rightarrow> (string \<rightharpoonup> paint) \<Rightarrow>
   stored \<Rightarrow> (paint \<times> match_type) option" where
  "find_match nsku nname sku_to_data name_to_data paint =
     (let sku = on_val nsku (get_default (s_sku paint) []) in
      case sku_to_data sku of
        Some matched_data \<Rightarrow> Some (matched_data, BySku)
      | None \<Rightarrow>
          (let norm_name = on_val nname (get_default (s_name paint) []) in
           if norm_name \<noteq> [] then
             (case name_to_data norm_name of
                Some matched_data \<Rightarrow> Some (matched_data, ByName)
              | None \<Rightarrow> None)
           else None))"

definition merge_entry ::
  "(string \<Rightarrow> string) \<Rightarrow> (string \<Rightarrow> string) \<Rightarrow> (string \<rightharpoonup> paint) \<Rightarrow> (string \<rightharpoonup> paint) \<Rightarrow>
   stored \<Rightarrow> stored \<times> bool \<times> bool \<times> val option" where
  "merge_entry nsku nname sku_to_data name_to_data paint =
     (case find_match nsku nname sku_to_data name_to_data paint of
        Some (matched_data, match_type) \<Rightarrow>
          (let hex_differs = (get (s_hex paint) \<noteq> get (p_hex matched_data));
               paint1 = (if hex_differs then paint\<lparr>s_hex := Some (get (p_hex matched_data))\<rparr>
                         else paint);
               old_sku = get_default (s_sku paint1) [];
               new_sku = get_default (p_sku matched_data) [];
               sku_changed = (match_type = ByName \<and> old_sku \<noteq> new_sku \<and> truthy new_sku);
               paint2 = (if sku_changed then paint1\<lparr>s_sku := Some new_sku\<rparr> else paint1);
               paint3 = (if sku_changed \<and> truthy (get (p_product_url matched_data))
                         then paint2\<lparr>s_url := Some (get (p_product_url matched_data))\<rparr>
                         else paint2)
           in (paint3, hex_differs \<or> sku_changed, sku_changed, None))
      | None \<Rightarrow>
          (paint, False, False,
           if on_val nsku (get_default (s_sku paint) []) \<noteq> []
           then Some (get_default (s_sku paint) []) else None))"

text \<open>The counters of one file: \<open>updated\<close>, \<open>sku_changes\<close> and the list \<open>not_found\<close>.\<close>

record file_report =
  updated :: nat
  sku_changes :: nat
  not_found :: "val list"

fun merge_loop ::
  "(string \<Rightarrow> string) \<Rightarrow> (string \<Rightarrow> string) \<Rightarrow> (string \<rightharpoonup> paint) \<Rightarrow> (string \<rightharpoonup> paint) \<Rightarrow>
   stored list \<Rightarrow> stored list \<times> file_report" where
  "merge_loop nsku nname sku_to_data name_to_data [] =
     ([], \<lparr>updated = 0, sku_changes = 0, not_found = []\<rparr>)"
| "merge_loop nsku nname sku_to_data name_to_data (paint # rest) =
     (let (paint', changed, sku_changed, missing) =
            merge_entry nsku nname sku_to_data name_to_data paint;
          (rest', report) = merge_loop nsku nname sku_to_data name_to_data rest
      in (paint' # rest',
          \<lparr>updated = (if changed then 1 else 0) + updated report,
           sku_changes = (if sku_changed then 1 else 0) + sku_changes report,
           not_found = (case missing of Some s \<Rightarrow> [s] | None \<Rightarrow> []) @ not_found report\<rparr>))"

text \<open>
  One file: its content afterwards and its report; a file that is not recognised is
  skipped without a report.
\<close>

definition merge_file ::
  "(string \<Rightarrow> string) \<Rightarrow> (string \<Rightarrow> string) \<Rightarrow> (string \<rightharpoonup> paint) \<Rightarrow> (string \<rightharpoonup> paint) \<Rightarrow>
   catalogue \<Rightarrow> catalogue \<times> file_report option" where
  "merge_file nsku nname sku_to_data name_to_data data =
     (case data of
        Flat paint_list \<Rightarrow>
          (let (paint_list', report) = merge_loop nsku nname sku_to_data name_to_data paint_list
           in (Flat paint_list', Some report))
      | Wrapper other paint_list \<Rightarrow>
          (let (paint_list', report) = merge_loop nsku nname sku_to_data name_to_data paint_list
           in (Wrapper other paint_list', Some report))
      | Unrecognized \<Rightarrow> (Unrecognized, None))"

text \<open>
  The directory is the list of its JSON files, each a name and a content. The result is
  the directory afterwards with the totals that the function prints and the report of
  each file. (A file is written back only when its count is positive; its content is
  unchanged otherwise, so the directory afterwards holds the updated content either way.)
\<close>

record batch_result =
  files :: "(string \<times> catalogue) list"
  total_updated :: nat
  total_sku_updated :: nat
  reports :: "(string \<times> file_report option) list"

fun batch_loop ::
  "(string \<Rightarrow> string) \<Rightarrow> (string \<Rightarrow> string) \<Rightarrow> (string \<rightharpoonup> paint) \<Rightarrow> (string \<rightharpoonup> paint) \<Rightarrow>
   (string \<times> catalogue) list \<Rightarrow> batch_result" where
  "batch_loop nsku nname sku_to_data name_to_data [] =
     \<lparr>files = [], total_updated = 0, total_sku_updated = 0, reports = []\<rparr>"
| "batch_loop nsku nname sku_to_data name_to_data ((json_path, data) # rest) =
     (let (data', report) = merge_file nsku nname sku_to_data name_to_data data;
          result = batch_loop nsku nname sku_to_data name_to_data rest;
          counted = (case report of
                       Some r \<Rightarrow> if 0 < updated r then (updated r, sku_changes r) else (0, 0)
                     | None \<Rightarrow> (0, 0))
      in \<lparr>files = (json_path, data') # files result,
          total_updated = fst counted + total_updated result,
          total_sku_updated = snd counted + total_sku_updated result,
          reports = (json_path, report) # reports result\<rparr>)"

definition batch_update_json_files_with ::
  "(string \<Rightarrow> string) \<Rightarrow> (string \<Rightarrow> string) \<Rightarrow> (string \<times> catalogue) list \<Rightarrow> paint list \<Rightarrow>
   batch_result" where
  "batch_update_json_files_with nsku nname directory scraped_data =
     (let (sku_to_data, name_to_data) = build_lookups nsku nname scraped_data Map.empty Map.empty
      in batch_loop nsku nname sku_to_data name_to_data directory)"

definition ak_batch_update_json_files :: "(string \<times> catalogue) list \<Rightarrow> paint list \<Rightarrow> batch_result" where
  "ak_batch_update_json_files =
     batch_update_json_files_with ak_normalize_sku ak_normalize_name"

definition vallejo_batch_update_json_files ::
  "(string \<times> catalogue) list \<Rightarrow> paint list \<Rightarrow> batch_result" where
  "vallejo_batch_update_json_files =
     batch_update_json_files_with vallejo_normalize_sku vallejo_normalize_name"


text \<open>
  A record enters the lookups when it has a SKU and a hex. The fresh records are
  consistent when two of them with the same normalised SKU carry the same hex.
\<close>

definition eligible :: "paint \<Rightarrow> bool" where
  "eligible paint \<longleftrightarrow> truthy (get (p_sku paint)) \<and> truthy (get (p_hex paint))"

definition consistent_hex :: "(string \<Rightarrow> string) \<Rightarrow> paint list \<Rightarrow> bool" where
  "consistent_hex nsku scraped_data \<longleftrightarrow>
     (\<forall>p \<in> set scraped_data. \<forall>q \<in> set scraped_data.
        eligible p \<and> eligible q \<and> on_val nsku (get (p_sku p)) = on_val nsku (get (p_sku q))
        \<longrightarrow> get (p_hex p) = get (p_hex q))"

text \<open>The two master lookups of a batch run.\<close>

definition sku_lookup ::
  "(string \<Rightarrow> string) \<Rightarrow> (string \<Rightarrow> string) \<Rightarrow> paint list \<Rightarrow> (string \<rightharpoonup> paint)" where
  "sku_lookup nsku nname scraped_data =
     fst (build_lookups nsku nname scraped_data Map.empty Map.empty)"

definition name_lookup ::
  "(string \<Rightarrow> string) \<Rightarrow> (string \<Rightarrow> string) \<Rightarrow> paint list \<Rightarrow> (string \<rightharpoonup> paint)" where
  "name_lookup nsku nname scraped_data =
     snd (build_lookups nsku nname scraped_data Map.empty Map.empty)"

text \<open>
  An existing entry has a renamed match when its normalised SKU is absent from the SKU
  lookup and its normalised name is non-empty and maps, in the name lookup, to the fresh
  record \<open>m\<close>. \<open>renamed\<close> is the entry with the hex and the SKU of \<open>m\<close>, and with the URL of
  \<open>m\<close> when \<open>m\<close> carries one.
\<close>

definition renamed_match ::
  "(string \<Rightarrow> string) \<Rightarrow> (string \<Rightarrow> string) \<Rightarrow> paint list \<Rightarrow> stored \<Rightarrow> paint \<Rightarrow> bool" where
  "renamed_match nsku nname scraped_data paint m \<longleftrightarrow>
     sku_lookup nsku nname scraped_data (on_val nsku (get_default (s_sku paint) [])) = None \<and>
     on_val nname (get_default (s_name paint) []) \<noteq> [] \<and>
     name_lookup nsku nname scraped_data (on_val nname (get_default (s_name paint) [])) = Some m"

definition renamed :: "stored \<Rightarrow> paint \<Rightarrow> stored" where
  "renamed paint m =
     paint\<lparr>s_hex := Some (get (p_hex m)), s_sku := Some (get (p_sku m)),
           s_url := (if truthy (get (p_product_url m)) then Some (get (p_product_url m))
                     else s_url paint)\<rparr>"

text \<open>
  A function applied to every entry of a file, in either shape. An entry counts as renamed
  when it has a renamed match; an entry found by its SKU is stale when its hex differs from
  the hex of the record found.
\<close>

definition map_paints :: "(stored \<Rightarrow> stored) \<Rightarrow> catalogue \<Rightarrow> catalogue" where
  "map_paints f data =
     (case data of
        Flat paint_list \<Rightarrow> Flat (map f paint_list)
      | Wrapper other paint_list \<Rightarrow> Wrapper other (map f paint_list)
      | Unrecognized \<Rightarrow> Unrecognized)"

definition has_renamed_match ::
  "(string \<Rightarrow> string) \<Rightarrow> (string \<Rightarrow> string) \<Rightarrow> paint list \<Rightarrow> stored \<Rightarrow> bool" where
  "has_renamed_match nsku nname scraped_data paint \<longleftrightarrow>
     sku_lookup nsku nname scraped_data (on_val nsku (get_default (s_sku paint) [])) = None \<and>
     on_val nname (get_default (s_name paint) []) \<noteq> [] \<and>
     name_lookup nsku nname scraped_data (on_val nname (get_default (s_name paint) [])) \<noteq> None"

definition stale_hex ::
  "(string \<Rightarrow> string) \<Rightarrow> (string \<Rightarrow> string) \<Rightarrow> paint list \<Rightarrow> stored \<Rightarrow> bool" where
  "stale_hex nsku nname scraped_data paint \<longleftrightarrow>
     (case sku_lookup nsku nname scraped_data (on_val nsku (get_default (s_sku paint) [])) of
        Some matched_data \<Rightarrow> get (s_hex paint) \<noteq> get (p_hex matched_data)
      | None \<Rightarrow> False)"

text \<open>Example records with a hex; an existing entry.\<close>

definition fresh_record :: "string \<Rightarrow> string \<Rightarrow> string \<Rightarrow> paint" where
  "fresh_record t s h = (raw_record t s)\<lparr>p_hex := Some (Str h)\<rparr>"

definition stored_entry :: "string \<Rightarrow> string \<Rightarrow> string \<Rightarrow> stored" where
  "stored_entry s n h =
     \<lparr>s_sku = Some (Str s), s_name = Some (Str n), s_hex = Some (Str h), s_url = None\<rparr>"

text \<open>
  A scrape in which one product was renumbered, and a directory of two files, one of each
  shape, with four entries: two of them carry the old number of that product.
\<close>

definition renumbered_scrape :: "paint list" where
  "renumbered_scrape =
     [(fresh_record ''Old Name'' ''09703'' ''#112233'')
        \<lparr>p_product_url := Some (Str ''https://v.example/09703'')\<rparr>,
      fresh_record ''Black'' ''70.950'' ''#000000'']"

definition renumbered_directory :: "(string \<times> catalogue) list" where
  "renumbered_directory =
     [(''a.json'', Flat [stored_entry ''09701'' ''Old Name'' [],
                         stored_entry ''70.950'' ''Black'' ''#111111'']),
      (''b.json'', Wrapper [(''range'', Str ''Model Color'')]
                     [stored_entry ''70.001'' ''White'' ''#FFFFFF'',
                      stored_entry ''09702'' ''Old name'' []])]"

section \<open>Region colour sampler\<close>

text \<open>
  A decoded bitmap: its size and the RGB value of each pixel (channels are 0 to 255 for an
  image converted to RGB). \<open>getpixel\<close> raises \<open>IndexError\<close> outside the bitmap; \<open>None\<close> stands
  for the exception, which \<open>sample_color_from_image\<close> catches and turns into the result
  \<open>None\<close>.
\<close>

type_synonym rgb = "nat \<times> nat \<times> nat"

record image =
  i_width :: nat
  i_height :: nat
  i_pixel :: "nat \<Rightarrow> nat \<Rightarrow> rgb"

definition getpixel :: "image \<Rightarrow> int \<times> int \<Rightarrow> rgb option" where
  "getpixel img xy =
     (case xy of (x, y) \<Rightarrow>
        if 0 \<le> x \<and> x < int (i_width img) \<and> 0 \<le> y \<and> y < int (i_height img)
        then Some (i_pixel img (nat x) (nat y)) else None)"

text \<open>\<open>"#{:02X}{:02X}{:02X}".format(r, g, b)\<close>: uppercase hexadecimal, two digits at least.\<close>

definition hex_digit :: "nat \<Rightarrow> char" where
  "hex_digit d = ''0123456789ABCDEF'' ! d"

fun hex_digits :: "nat \<Rightarrow> string" where
  "hex_digits n = (if n < 16 then [hex_digit n] else hex_digits (n div 16) @ [hex_digit (n mod 16)])"

declare hex_digits.simps [simp del]

definition hex02 :: "nat \<Rightarrow> string" where
  "hex02 n = (if n < 16 then CHR ''0'' # hex_digits n else hex_digits n)"

definition hex_color :: "rgb \<Rightarrow> string" where
  "hex_color c = (case c of (r, g, b) \<Rightarrow> ''#'' @ hex02 r @ hex02 g @ hex02 b)"

text \<open>
  The neighbourhood of an anchor: offsets \<open>range(-5, 6, 2)\<close> in both directions, clamped to
  the bitmap, and the mean of each channel with integer division.
\<close>

definition offsets :: "int list" where
  "offsets = [-5, -3, -1, 1, 3, 5]"

definition region_colors :: "image \<Rightarrow> int \<times> int \<Rightarrow> rgb list option" where
  "region_colors img xy =
     (case xy of (x, y) \<Rightarrow>
        those (concat (map (\<lambda>dx. map (\<lambda>dy.
          let px = max 0 (min (x + dx) (int (i_width img) - 1));
              py = max 0 (min (y + dy) (int (i_height img) - 1))
          in getpixel img (px, py)) offsets) offsets)))"

definition region_mean :: "image \<Rightarrow> int \<times> int \<Rightarrow> rgb option" where
  "region_mean img xy =
     (case region_colors img xy of
        None \<Rightarrow> None
      | Some colors \<Rightarrow>
          Some (sum_list (map fst colors) div length colors,
                sum_list (map (fst \<circ> snd) colors) div length colors,
                sum_list (map (snd \<circ> snd) colors) div length colors))"

text \<open>
  The score of a mean colour, or \<open>None\<close> when the brightness gate rejects it
  (\<open>brightness > 245 or brightness < 10\<close>). Python computes saturation, brightness and score
  in binary floating point; here they are exact rationals. \<open>weight\<close> and \<open>bonus\<close> are the
  constants of the module: 0.5 and 0 for AK, 0.3 and 0.1 for Vallejo.
\<close>

definition score_with :: "rat \<Rightarrow> rat \<Rightarrow> rgb \<Rightarrow> rat option" where
  "score_with weight bonus c =
     (case c of (r, g, b) \<Rightarrow>
        let max_c = max r (max g b);
            min_c = min r (min g b);
            saturation = (if 0 < max_c then of_nat (max_c - min_c) / of_nat (max max_c 1) else 0);
            brightness = (of_nat (r + g + b) / 3 :: rat)
        in if brightness > 245 \<or> brightness < 10 then None
           else let brightness_penalty = \<bar>brightness - 127\<bar> / 127
                in Some (saturation * (1 - brightness_penalty * weight) + bonus))"

text \<open>
  The loop over the anchors with \<open>best_color\<close> and \<open>best_score\<close>. The outer \<open>option\<close> is the
  exception of \<open>getpixel\<close>.
\<close>

fun pick_best ::
  "(rgb \<Rightarrow> rat option) \<Rightarrow> image \<Rightarrow> (int \<times> int) list \<Rightarrow> rgb option \<Rightarrow> rat \<Rightarrow> rgb option option" where
  "pick_best score img [] best_color best_score = Some best_color"
| "pick_best score img (xy # rest) best_color best_score =
     (case region_mean img xy of
        None \<Rightarrow> None
      | Some c \<Rightarrow>
          (case score c of
             None \<Rightarrow> pick_best score img rest best_color best_score
           | Some s \<Rightarrow>
               if s > best_score then pick_best score img rest (Some c) s
               else pick_best score img rest best_color best_score))"

text \<open>
  What follows the loop: the best colour as a hex string, or the raw pixel of the fallback
  point when no anchor passed the gate.
\<close>

definition sample_with ::
  "(rgb \<Rightarrow> rat option) \<Rightarrow> image \<Rightarrow> (int \<times> int) list \<Rightarrow> int \<times> int \<Rightarrow> string option" where
  "sample_with score img sample_regions fallback =
     (case pick_best score img sample_regions None (- 1) of
        None \<Rightarrow> None
      | Some (Some best_color) \<Rightarrow> Some (hex_color best_color)
      | Some None \<Rightarrow> map_option hex_color (getpixel img fallback))"

text \<open>AK Interactive: the layouts of anchors by range hint, in image coordinates.\<close>

definition ak_sample_regions :: "image \<Rightarrow> string \<Rightarrow> (int \<times> int) list" where
  "ak_sample_regions img range_hint =
     (let width = int (i_width img); height = int (i_height img) in
      if range_hint = ''acrylic-wash'' then
        [(245, 610), (200, 580), (280, 620), (220, 550), (260, 650)]
      else if range_hint = ''deep-shades'' then
        [(width div 2, 4 * height div 5), (width div 2, 3 * height div 4),
         (width div 3, 4 * height div 5), (2 * width div 3, 4 * height div 5),
         (width div 2, 7 * height div 10)]
      else if range_hint = ''playmarkers'' then
        [(4 * width div 5, height div 2), (7 * width div 8, height div 2),
         (4 * width div 5, 2 * height div 5), (7 * width div 8, 2 * height div 5),
         (4 * width div 5, 3 * height div 5), (7 * width div 8, 3 * height div 5)]
      else if range_hint = ''rc-markers'' then
        [(width div 2, height div 3), (width div 2, height div 4), (width div 3, height div 3),
         (2 * width div 3, height div 3), (width div 2, height div 2)]
      else
        [(width div 2, height div 5), (width div 3, height div 5), (2 * width div 3, height div 5),
         (width div 2, height div 4), (width div 3, height div 4), (2 * width div 3, height div 4),
         (width div 2, height div 3), (width div 3, height div 3), (2 * width div 3, height div 3)])"

text \<open>
  \<open>sample_color_from_image\<close> of AK on the outcome of the download and decoding (\<open>None\<close> when
  either failed).
\<close>

definition ak_sample_color_from_image :: "image option \<Rightarrow> string \<Rightarrow> string option" where
  "ak_sample_color_from_image decoded range_hint =
     (case decoded of
        None \<Rightarrow> None
      | Some img \<Rightarrow>
          sample_with (score_with (1 / 2) 0) img (ak_sample_regions img range_hint)
            (int (i_width img) div 2, int (i_height img) div 4))"

text \<open>
  Vallejo computes its anchors as \<open>int(width * 0.10)\<close> and so on, in binary floating point.
  \<open>floor_scale n c\<close> is \<open>int(n * c / 100)\<close> in exact arithmetic, for a constant given in
  hundredths. For the twelve constants of the module the floating-point product truncates to
  the same integer for every size up to 200000 pixels.
\<close>

definition floor_scale :: "nat \<Rightarrow> nat \<Rightarrow> int" where
  "floor_scale n c = int (n * c div 100)"

definition vallejo_sample_regions :: "image \<Rightarrow> (int \<times> int) list" where
  "vallejo_sample_regions img =
     (let width = i_width img; height = i_height img in
      [(floor_scale width 10, floor_scale height 50), (floor_scale width 15, floor_scale height 50),
       (floor_scale width 12, floor_scale height 45), (floor_scale width 12, floor_scale height 55),
       (floor_scale width 8, floor_scale height 48), (floor_scale width 18, floor_scale height 52),
       (floor_scale width 10, floor_scale height 40), (floor_scale width 10, floor_scale height 60)])"

definition vallejo_sample_color_from_image :: "image option \<Rightarrow> string option" where
  "vallejo_sample_color_from_image decoded =
     (case decoded of
        None \<Rightarrow> None
      | Some img \<Rightarrow>
          sample_with (score_with (3 / 10) (1 / 10)) img (vallejo_sample_regions img)
            (floor_scale (i_width img) 12, floor_scale (i_height img) 50))"

text \<open>
  Every anchor of a layout is rejected by the brightness gate.
\<close>

definition all_gated :: "(rgb \<Rightarrow> rat option) \<Rightarrow> image \<Rightarrow> (int \<times> int) list \<Rightarrow> bool" where
  "all_gated score img sample_regions \<longleftrightarrow>
     list_all (\<lambda>xy. case region_mean img xy of None \<Rightarrow> False | Some c \<Rightarrow> score c = None)
       sample_regions"

text \<open>
  Example bitmaps: one colour everywhere, and a near-white bitmap whose pixel (20, 8) alone
  is pure white.
\<close>

definition uniform_image :: "nat \<Rightarrow> nat \<Rightarrow> rgb \<Rightarrow> image" where
  "uniform_image w h c = \<lparr>i_width = w, i_height = h, i_pixel = (\<lambda>x y. c)\<rparr>"

definition dotted_image :: image where
  "dotted_image =
     \<lparr>i_width = 40, i_height = 40,
      i_pixel = (\<lambda>x y. if x = 20 \<and> y = 8 then (255, 255, 255) else (254, 254, 254))\<rparr>"

text \<open>
  A hex string as the catalogue wants it: \<open>#\<close> and six uppercase hexadecimal digits. The
  channels of a bitmap converted to RGB are below 256.
\<close>

definition is_hex_color :: "string \<Rightarrow> bool" where
  "is_hex_color s \<longleftrightarrow>
     length s = 7 \<and> take 1 s = ''#'' \<and> list_all (\<lambda>c. c \<in> set ''0123456789ABCDEF'') (drop 1 s)"

definition rgb_image :: "image \<Rightarrow> bool" where
  "rgb_image img \<longleftrightarrow>
     0 < i_width img \<and> 0 < i_height img \<and>
     (\<forall>x y. case i_pixel img x y of (r, g, b) \<Rightarrow> r < 256 \<and> g < 256 \<and> b < 256)"

section \<open>Colour extraction from vector graphics\<close>

text \<open>
  Citadel, \<open>extract_hex_from_svg\<close>. Its three regular expressions are written out as
  scanners. \<open>fill_here s\<close> matches \<^verbatim>\<open>fill="(#[0-9A-Fa-f]{6})"\<close> at the head of \<open>s\<close> and gives the
  group.
\<close>

definition is_hex :: "char \<Rightarrow> bool" where
  "is_hex c \<longleftrightarrow> is_digit c \<or> c \<in> set ''ABCDEFabcdef''"

definition fill_here :: "string \<Rightarrow> string option" where
  \<open>fill_here s =
     (if starts_with s ''fill="#'' \<and> 14 \<le> length s \<and> list_all is_hex (take 6 (drop 7 s)) \<and>
         s ! 13 = CHR 0x22
      then Some (take 7 (drop 6 s)) else None)\<close>

text \<open>
  \<^verbatim>\<open>[^>]*fill="(#[0-9A-Fa-f]{6})"\<close> at the head of \<open>s\<close>: the greedy \<open>[^>]*\<close> gives the last
  \<open>fill\<close> before the first \<open>>\<close>. The result is the group and the number of characters
  the match takes.
\<close>

fun last_fill :: "string \<Rightarrow> (string \<times> nat) option" where
  "last_fill [] = None"
| "last_fill (c # cs) =
     (if c = CHR ''>'' then None
      else case last_fill cs of
             Some (color, n) \<Rightarrow> Some (color, Suc n)
           | None \<Rightarrow> (case fill_here (c # cs) of
                        Some color \<Rightarrow> Some (color, 14)
                      | None \<Rightarrow> None))"

text \<open>\<^verbatim>\<open><rect[^>]*fill="(#[0-9A-Fa-f]{6})"\<close> at the head of \<open>s\<close>.\<close>

definition rect_fill_at :: "string \<Rightarrow> (string \<times> nat) option" where
  "rect_fill_at s =
     (if starts_with s ''<rect'' then
        (case last_fill (drop 5 s) of Some (color, n) \<Rightarrow> Some (color, 5 + n) | None \<Rightarrow> None)
      else None)"

text \<open>
  \<open>re.findall\<close> with a scanner \<open>m\<close> that gives, at a position, the group and the length of
  the match: the matches from left to right, each search starting where the match before
  ended (\<open>skip\<close> counts the characters of a match still to pass).
\<close>

fun findall_from :: "(string \<Rightarrow> (string \<times> nat) option) \<Rightarrow> nat \<Rightarrow> string \<Rightarrow> string list" where
  "findall_from m skip [] = []"
| "findall_from m skip (c # cs) =
     (if 0 < skip then findall_from m (skip - 1) cs
      else case m (c # cs) of
             Some (g, n) \<Rightarrow> g # findall_from m (n - 1) cs
           | None \<Rightarrow> findall_from m 0 cs)"

definition findall :: "(string \<Rightarrow> (string \<times> nat) option) \<Rightarrow> string \<Rightarrow> string list" where
  "findall m s = findall_from m 0 s"

text \<open>
  \<^verbatim>\<open>#([0-9A-Fa-f]{6}|[0-9A-Fa-f]{3})(?![0-9A-Fa-f])\<close> at the head of \<open>s\<close>: a \<open>#\<close> followed by a
  run of exactly six or exactly three hexadecimal digits.
\<close>

definition hex_at :: "string \<Rightarrow> (string \<times> nat) option" where
  "hex_at s =
     (case s of
        [] \<Rightarrow> None
      | c # cs \<Rightarrow>
          if c = CHR ''#'' then
            (let run = takeWhile is_hex cs
             in if length run = 6 \<or> length run = 3 then Some (run, 1 + length run) else None)
          else None)"

text \<open>
  The first strategy,
  \<^verbatim>\<open>clip-path="url\(#(?:pot|spray)\)"[^>]*>.*?<rect[^>]*fill="(#[0-9A-Fa-f]{6})"\<close> with
  \<open>DOTALL\<close>: after the clip path, the rest of its tag up to \<open>>\<close>, then the first \<open>rect\<close>
  with a fill anywhere behind. \<open>search_pot\<close> is \<open>re.search\<close>: the leftmost start that matches.
\<close>

fun first_rect_fill :: "string \<Rightarrow> string option" where
  "first_rect_fill [] = None"
| "first_rect_fill (c # cs) =
     (case rect_fill_at (c # cs) of
        Some (color, n) \<Rightarrow> Some color
      | None \<Rightarrow> first_rect_fill cs)"

definition pot_at :: "string \<Rightarrow> string option" where
  \<open>pot_at s =
     (let after =
            (if starts_with s ''clip-path="url(#pot)"''
             then Some (drop (length ''clip-path="url(#pot)"'') s)
             else if starts_with s ''clip-path="url(#spray)"''
             then Some (drop (length ''clip-path="url(#spray)"'') s)
             else None)
      in case after of
           None \<Rightarrow> None
         | Some r \<Rightarrow>
             (case dropWhile (\<lambda>c. c \<noteq> CHR ''>'') r of
                [] \<Rightarrow> None
              | g # body \<Rightarrow> first_rect_fill body))\<close>

fun search_pot :: "string \<Rightarrow> string option" where
  "search_pot [] = None"
| "search_pot (c # cs) =
     (case pot_at (c # cs) of Some color \<Rightarrow> Some color | None \<Rightarrow> search_pot cs)"

text \<open>
  \<open>Counter\<close> as the insertion-ordered dictionary it is: a colour seen again is counted
  where it stands, a new colour is appended. \<open>most_common\<close> sorts by count, largest
  first, and keeps the order of the dictionary among equal counts.
\<close>

fun count_color :: "string \<Rightarrow> (string \<times> nat) list \<Rightarrow> (string \<times> nat) list" where
  "count_color color [] = [(color, 1)]"
| "count_color color ((k, n) # rest) =
     (if k = color then (k, n + 1) # rest else (k, n) # count_color color rest)"

definition Counter :: "string list \<Rightarrow> (string \<times> nat) list" where
  "Counter colors = foldl (\<lambda>counts color. count_color color counts) [] colors"

definition most_common :: "(string \<times> nat) list \<Rightarrow> (string \<times> nat) list" where
  "most_common counts = sort_key (\<lambda>(color, n). - int n) counts"

definition ignore_colors :: "string list" where
  "ignore_colors =
     [''FFFFFF'', ''FEFEFE'', ''FDFDFD'', ''FCFCFC'', ''FAFAFA'',
      ''000000'', ''010101'', ''020202'', ''030303'',
      ''F5F5F5'', ''EFEFEF'', ''E0E0E0'', ''D0D0D0'', ''C0C0C0'',
      ''808080'', ''888888'', ''999999'', ''AAAAAA'', ''B0B0B0'',
      ''292929'', ''333333'', ''444444'', ''555555'', ''666666'', ''1A1A1A'']"

text \<open>A match normalised to six uppercase digits: \<open>lstrip('#')\<close>, doubling of three digits.\<close>

definition normalize_color :: "string \<Rightarrow> string" where
  "normalize_color m =
     (let color = dropWhile (\<lambda>c. c = CHR ''#'') m;
          color = (if length color = 3 then concat (map (\<lambda>c. [c, c]) color) else color)
      in upper color)"

text \<open>The colours that are counted: the rect fills, or all hex colours when there is none.\<close>

definition svg_colors :: "string \<Rightarrow> string list" where
  "svg_colors svg_content =
     (let rect_matches = findall rect_fill_at svg_content;
          all_matches = findall hex_at svg_content
      in map normalize_color (if rect_matches \<noteq> [] then rect_matches else all_matches))"

definition extract_hex_from_svg :: "string \<Rightarrow> string option" where
  "extract_hex_from_svg svg_content =
     (case search_pot svg_content of
        Some color \<Rightarrow> Some (upper color)
      | None \<Rightarrow>
          (let rect_matches = findall rect_fill_at svg_content;
               all_matches = findall hex_at svg_content
           in if all_matches = [] \<and> rect_matches = [] then None
              else
                let normalized = map normalize_color
                                   (if rect_matches \<noteq> [] then rect_matches else all_matches);
                    color_counts = Counter normalized
                in case filter (\<lambda>(color, n). color \<notin> set ignore_colors)
                          (most_common color_counts) of
                     (color, n) # rest \<Rightarrow> Some (''#'' @ color)
                   | [] \<Rightarrow>
                       (case most_common color_counts of
                          (color, n) # rest \<Rightarrow> Some (''#'' @ color)
                        | [] \<Rightarrow> None)))"

text \<open>Example vector graphics.\<close>

definition pot_svg :: string where
  \<open>pot_svg = ''<g clip-path="url(#pot)"><path fill="#fff"/><rect width="9" fill="#8f7c68"/></g>''\<close>

definition white_rect_svg :: string where
  \<open>white_rect_svg = ''<rect fill="#FFFFFF"/><path fill="#AA0000"/><path fill="#AA0000"/>''\<close>

definition paths_svg :: string where
  \<open>paths_svg = ''<path fill="#fff"/><path fill="#a00"/><path fill="#A00"/><path stroke="#00B000"/>''\<close>

definition spray_svg :: string where
  \<open>spray_svg = ''<svg><g clip-path="url(#spray)" id="can"><rect x="1" fill="#1B3A5C" y="2"/></g></svg>''\<close>

definition tie_svg :: string where
  \<open>tie_svg = ''<path fill="#AA0000"/><path fill="#00BB00"/>''\<close>

text \<open>
  The colour that the counting strategies are expected to give: the first colour of
  \<open>colors\<close>, in the order of appearance, that satisfies \<open>P\<close> and is at least as frequent as
  every colour that satisfies \<open>P\<close>.
\<close>

definition first_most_frequent :: "string list \<Rightarrow> (string \<Rightarrow> bool) \<Rightarrow> string option" where
  "first_most_frequent colors P =
     find (\<lambda>c. P c \<and> list_all (\<lambda>d. P d \<longrightarrow> count_list colors d \<le> count_list colors c) colors)
       colors"

section \<open>Facts about strings\<close>

lemma upper_char_idem: "upper_char (upper_char c) = upper_char c"
proof (cases "is_lower c")
  case True
  then have "97 \<le> (of_char c :: nat)" "(of_char c :: nat) \<le> 122"
    by (simp_all add: is_lower_def Let_def)
  then have "\<not> is_lower (char_of ((of_char c :: nat) - 32))"
    by (simp add: is_lower_def Let_def)
  with True show ?thesis by (simp add: upper_char_def)
next
  case False
  then show ?thesis by (simp add: upper_char_def)
qed

lemma upper_idem: "upper (upper s) = upper s"
  by (simp add: upper_def upper_char_idem)

lemma upper_char_space: "is_space (upper_char c) \<longleftrightarrow> is_space c"
proof (cases "is_lower c")
  case True
  then have b: "97 \<le> (of_char c :: nat)" "(of_char c :: nat) \<le> 122"
    by (simp_all add: is_lower_def Let_def)
  then have "\<not> is_space (char_of ((of_char c :: nat) - 32))"
    by (simp add: is_space_def Let_def) arith
  moreover from b have "\<not> is_space c"
    by (simp add: is_space_def Let_def)
  ultimately show ?thesis using True by (simp add: upper_char_def)
next
  case False
  then show ?thesis by (simp add: upper_char_def)
qed

lemma upper_remove_ws: "upper (remove_ws s) = remove_ws (upper s)"
  by (induction s) (simp_all add: upper_def remove_ws_def upper_char_space)

lemma remove_ws_idem: "remove_ws (remove_ws s) = remove_ws s"
  by (simp add: remove_ws_def)

lemma remove_ws_no_space: "list_all (\<lambda>c. \<not> is_space c) s \<Longrightarrow> remove_ws s = s"
  by (induction s) (simp_all add: remove_ws_def)

lemma no_space_remove_ws: "list_all (\<lambda>c. \<not> is_space c) (remove_ws s)"
  by (simp add: remove_ws_def list_all_iff)

lemma strip_no_space: "list_all (\<lambda>c. \<not> is_space c) s \<Longrightarrow> strip s = s"
proof -
  assume a: "list_all (\<lambda>c. \<not> is_space c) s"
  have d: "dropWhile is_space t = t" if "list_all (\<lambda>c. \<not> is_space c) t" for t
    using that by (cases t) simp_all
  from a have "list_all (\<lambda>c. \<not> is_space c) (rev s)"
    by (simp add: list_all_iff)
  with a d show ?thesis by (simp add: strip_def)
qed

lemma strip_remove_ws: "strip (remove_ws s) = remove_ws s"
  by (rule strip_no_space) (rule no_space_remove_ws)

lemma digit_not_space: "is_digit c \<Longrightarrow> \<not> is_space c"
  by (simp add: is_digit_def is_space_def Let_def)


lemma ak_normalize_sku_idem: "ak_normalize_sku (ak_normalize_sku s) = ak_normalize_sku s"
proof (cases "remove_ws (upper s) = []")
  case True
  then show ?thesis by (simp add: ak_normalize_sku_def)
next
  case False
  have "remove_ws (upper (remove_ws (upper s))) = remove_ws (upper s)"
    by (simp add: upper_remove_ws upper_idem remove_ws_idem)
  then show ?thesis by (simp add: ak_normalize_sku_def)
qed

lemma dotted_no_space:
  assumes "match_5digits s" "list_all (\<lambda>c. \<not> is_space c) s"
  shows "list_all (\<lambda>c. \<not> is_space c) (take 2 s @ ''.'' @ drop 2 s)"
proof -
  have "\<not> is_space CHR ''.''" by (simp add: is_space_def)
  moreover have "list_all (\<lambda>c. \<not> is_space c) (take 2 s)" "list_all (\<lambda>c. \<not> is_space c) (drop 2 s)"
    using assms(2) by (auto simp: list_all_iff dest: in_set_takeD in_set_dropD)
  ultimately show ?thesis by simp
qed

lemma dotted_not_5digits:
  assumes "match_5digits s" "list_all (\<lambda>c. \<not> is_space c) s"
  shows "\<not> match_5digits (take 2 s @ ''.'' @ drop 2 s)"
proof -
  have nl: "is_space (CHR 0x0A)" by (simp add: is_space_def)
  have len: "length s = 5"
  proof (rule ccontr)
    assume "length s \<noteq> 5"
    with assms(1) have "length s = 6" "drop 5 s = [CHR 0x0A]" by (auto simp: match_5digits_def)
    then have "CHR 0x0A \<in> set s" by (metis in_set_dropD list.set_intros(1))
    with assms(2) nl show False by (auto simp: list_all_iff)
  qed
  then obtain a b c d e where s: "s = [a, b, c, d, e]"
    by (cases s; simp; (rename_tac x xs, case_tac xs; simp)+) 
  have "\<not> is_digit CHR ''.''" by (simp add: is_digit_def)
  then show ?thesis by (simp add: s match_5digits_def)
qed

lemma vallejo_normalize_sku_idem:
  "vallejo_normalize_sku (vallejo_normalize_sku s) = vallejo_normalize_sku s"
proof (cases "s = []")
  case True
  then show ?thesis by (simp add: vallejo_normalize_sku_def)
next
  case False
  let ?t = "remove_ws s"
  have ns: "list_all (\<lambda>c. \<not> is_space c) ?t" by (rule no_space_remove_ws)
  show ?thesis
  proof (cases "match_5digits ?t")
    case True
    let ?r = "take 2 ?t @ ''.'' @ drop 2 ?t"
    have r: "vallejo_normalize_sku s = ?r"
      using False True by (simp add: vallejo_normalize_sku_def strip_remove_ws Let_def)
    have rns: "list_all (\<lambda>c. \<not> is_space c) ?r" using True ns by (rule dotted_no_space)
    have "\<not> match_5digits ?r" using True ns by (rule dotted_not_5digits)
    then have "vallejo_normalize_sku ?r = ?r"
      using rns by (simp add: vallejo_normalize_sku_def remove_ws_no_space strip_no_space Let_def)
    with r show ?thesis by simp
  next
    case F2: False
    have r: "vallejo_normalize_sku s = ?t"
      using False F2 by (simp add: vallejo_normalize_sku_def strip_remove_ws Let_def)
    have "vallejo_normalize_sku ?t = ?t"
      using F2 by (simp add: vallejo_normalize_sku_def remove_ws_idem strip_remove_ws Let_def)
    with r show ?thesis by simp
  qed
qed

lemma search_11digits_Some:
  "search_11digits s = Some d \<Longrightarrow> length d = 11 \<and> list_all is_digit d"
  by (induction s) (auto simp: digits11_here_def split: if_splits)

lemma search_11digits_exact:
  "length d = 11 \<Longrightarrow> list_all is_digit d \<Longrightarrow> search_11digits d = Some d"
  by (cases d) (simp_all add: digits11_here_def)

lemma search_11digits_None:
  "search_11digits s = None \<Longrightarrow> list_all (\<lambda>c. \<not> is_space c) s \<Longrightarrow>
   citadel_normalize_sku s = s"
  by (simp add: citadel_normalize_sku_def remove_ws_no_space strip_no_space)

lemma citadel_normalize_sku_idem:
  assumes "citadel_valid_sku s"
  shows "citadel_normalize_sku (citadel_normalize_sku s) = citadel_normalize_sku s"
proof (cases "search_11digits s")
  case (Some d)
  then have d: "length d = 11" "list_all is_digit d" by (auto dest: search_11digits_Some)
  from Some have "s \<noteq> []" by auto
  with Some have r: "citadel_normalize_sku s = d" by (simp add: citadel_normalize_sku_def)
  from d have "d \<noteq> []" by auto
  with d have "citadel_normalize_sku d = d"
    by (simp add: citadel_normalize_sku_def search_11digits_exact)
  with r show ?thesis by simp
next
  case None
  with assms have ns: "list_all (\<lambda>c. \<not> is_space c) s" by (simp add: citadel_valid_sku_def)
  with None have "citadel_normalize_sku s = s" by (rule search_11digits_None)
  then show ?thesis by simp
qed

section \<open>SKU normalisation is a projection\<close>

text \<open>
  Outside the valid Citadel SKUs the second pass can differ from the first: whitespace
  between two digit groups hides a run of twelve digits from the first pass.
\<close>

lemma citadel_normalize_sku_twelve_digits:
  "citadel_normalize_sku ''12345 6789012'' = ''123456789012'' \<and>
   citadel_normalize_sku ''123456789012'' = ''12345678901''"
  by (simp add: citadel_normalize_sku_def digits11_here_def is_digit_def is_space_def
      remove_ws_def strip_def)

text \<open>
  C8. SKU normalisation is a projection: normalising a normalised SKU changes nothing.
  For AK Interactive (uppercase, whitespace removed) and Vallejo (whitespace removed, dot
  inserted into five bare digits) this holds for every string; for Citadel (extraction of
  the eleven-digit code) it holds for every valid SKU.
\<close>

theorem normalize_sku_projection:
  "ak_normalize_sku (ak_normalize_sku s) = ak_normalize_sku s \<and>
   vallejo_normalize_sku (vallejo_normalize_sku s) = vallejo_normalize_sku s \<and>
   (citadel_valid_sku s \<longrightarrow>
      citadel_normalize_sku (citadel_normalize_sku s) = citadel_normalize_sku s)"
  by (simp add: ak_normalize_sku_idem vallejo_normalize_sku_idem citadel_normalize_sku_idem)

theorem normalize_sku_projection_witness:
  "citadel_valid_sku ''sku 99189950001'' \<and>
   citadel_normalize_sku ''sku 99189950001'' = ''99189950001'' \<and>
   citadel_normalize_sku (citadel_normalize_sku ''sku 99189950001'') = ''99189950001'' \<and>
   ak_normalize_sku (ak_normalize_sku ''sku 99189950001'') = ak_normalize_sku ''sku 99189950001'' \<and>
   vallejo_normalize_sku (vallejo_normalize_sku ''sku 99189950001'') =
     vallejo_normalize_sku ''sku 99189950001''"
proof -
  have v: "citadel_valid_sku ''sku 99189950001''"
    by (simp add: citadel_valid_sku_def digits11_here_def is_digit_def)
  have n: "citadel_normalize_sku ''sku 99189950001'' = ''99189950001''"
    by (simp add: citadel_normalize_sku_def digits11_here_def is_digit_def)
  from v n show ?thesis
    using normalize_sku_projection [of "''sku 99189950001''"] by simp
qed

section \<open>The catalogue assembler: deduplication, guard and order\<close>


lemma new_recs_keys:
  "set (map snd (new_recs key ps S)) = {k. \<exists>p \<in> set ps. key p = Some k} - S"
  by (induction ps arbitrary: S) (auto split: option.splits)

lemma new_recs_distinct: "distinct (map snd (new_recs key ps S))"
proof (induction ps arbitrary: S)
  case Nil
  then show ?case by simp
next
  case (Cons p ps)
  show ?case
  proof (cases "key p")
    case None
    then show ?thesis using Cons by simp
  next
    case (Some k)
    have "k \<notin> set (map snd (new_recs key ps (insert k S)))"
      unfolding new_recs_keys by simp
    then show ?thesis using Some Cons by simp
  qed
qed

lemma new_recs_first:
  "(p, k) \<in> set (new_recs key ps S) \<Longrightarrow>
   key p = Some k \<and> k \<notin> S \<and> find (\<lambda>q. key q = Some k) ps = Some p"
proof (induction ps arbitrary: S)
  case Nil
  then show ?case by simp
next
  case (Cons q ps)
  show ?case
  proof (cases "key q")
    case None
    with Cons.prems have "(p, k) \<in> set (new_recs key ps S)" by simp
    from Cons.IH [OF this] None show ?thesis by simp
  next
    case (Some k0)
    show ?thesis
    proof (cases "k0 \<in> S")
      case True
      with Some Cons.prems have "(p, k) \<in> set (new_recs key ps S)" by simp
      from Cons.IH [OF this] Some True show ?thesis by auto
    next
      case False
      with Some Cons.prems
      have "(p, k) = (q, k0) \<or> (p, k) \<in> set (new_recs key ps (insert k0 S))" by simp
      then show ?thesis
      proof
        assume "(p, k) = (q, k0)"
        with Some False show ?thesis by simp
      next
        assume "(p, k) \<in> set (new_recs key ps (insert k0 S))"
        from Cons.IH [OF this] Some show ?thesis by auto
      qed
    qed
  qed
qed

lemma vallejo_loop_new_recs:
  "dom seen = S \<Longrightarrow>
   vallejo_catalogue_loop un cn r ps cat seen =
     cat @ map (\<lambda>(p, k). vallejo_entry un cn r p k) (new_recs vallejo_key ps S)"
proof (induction ps arbitrary: cat seen S)
  case Nil
  then show ?case by simp
next
  case (Cons p ps)
  show ?case
  proof (cases "vallejo_key p")
    case None
    then have "\<not> truthy (get_default (p_sku p) [])"
      by (simp add: vallejo_key_def Let_def split: if_splits)
    with None Cons show ?thesis by simp
  next
    case (Some k)
    then have t: "truthy (get_default (p_sku p) [])"
      and k: "on_val vallejo_normalize_sku (get_default (p_sku p) []) = k"
      by (simp_all add: vallejo_key_def Let_def split: if_splits)
    show ?thesis
    proof (cases "seen k")
      case None
      then have nS: "k \<notin> S" using Cons.prems by auto
      have d: "dom (seen(k \<mapsto> length cat)) = insert k S" using Cons.prems by simp
      have step: "vallejo_catalogue_loop un cn r (p # ps) cat seen =
          vallejo_catalogue_loop un cn r ps (cat @ [vallejo_entry un cn r p k]) (seen(k \<mapsto> length cat))"
        using t k None by simp
      show ?thesis unfolding step Cons.IH [OF d]
        using \<open>vallejo_key p = Some k\<close> nS by simp
    next
      case (Some i)
      then have "k \<in> S" using Cons.prems by auto
      then show ?thesis using \<open>vallejo_key p = Some k\<close> t k Some Cons by simp
    qed
  qed
qed

lemma citadel_loop_new_recs:
  "dom seen = S \<Longrightarrow>
   citadel_catalogue_loop c ps cat seen =
     cat @ map (\<lambda>(p, k). citadel_entry c p k) (new_recs citadel_key ps S)"
proof (induction ps arbitrary: cat seen S)
  case Nil
  then show ?case by simp
next
  case (Cons p ps)
  show ?case
  proof (cases "citadel_key p")
    case None
    then have "on_val citadel_normalize_sku (get_default (h_sku p) []) = []"
      by (simp add: citadel_key_def Let_def split: if_splits)
    with None Cons show ?thesis by simp
  next
    case (Some k)
    then have t: "k \<noteq> []"
      and k: "on_val citadel_normalize_sku (get_default (h_sku p) []) = k"
      by (simp_all add: citadel_key_def Let_def split: if_splits)
    show ?thesis
    proof (cases "seen k")
      case None
      then have nS: "k \<notin> S" using Cons.prems by auto
      have d: "dom (seen(k \<mapsto> length cat)) = insert k S" using Cons.prems by simp
      have step: "citadel_catalogue_loop c (p # ps) cat seen =
          citadel_catalogue_loop c ps (cat @ [citadel_entry c p k]) (seen(k \<mapsto> length cat))"
        using t k None by simp
      show ?thesis unfolding step Cons.IH [OF d]
        using \<open>citadel_key p = Some k\<close> nS by simp
    next
      case (Some i)
      then have "k \<in> S" using Cons.prems by auto
      then show ?thesis using \<open>citadel_key p = Some k\<close> t k Some Cons by simp
    qed
  qed
qed

lemma map_category_update:
  "map (\<lambda>e. e\<lparr>e_category := c0\<rparr>) (cat[i := (cat ! i)\<lparr>e_category := c\<rparr>]) =
   map (\<lambda>e. e\<lparr>e_category := c0\<rparr>) cat"
proof (cases "i < length cat")
  case True
  then show ?thesis by (simp add: map_update list_update_same_conv)
next
  case False
  then show ?thesis by (simp add: list_update_beyond)
qed

lemma ak_loop_new_recs:
  "dom seen = S \<Longrightarrow>
   map (\<lambda>e. e\<lparr>e_category := c0\<rparr>) (ak_catalogue_loop un cn r ps cat seen) =
     map (\<lambda>e. e\<lparr>e_category := c0\<rparr>) cat @
     map (\<lambda>(p, k). (ak_entry un cn r p k)\<lparr>e_category := c0\<rparr>) (new_recs ak_key ps S)"
proof (induction ps arbitrary: cat seen S)
  case Nil
  then show ?case by simp
next
  case (Cons p ps)
  show ?case
  proof (cases "ak_key p")
    case None
    then have "\<not> truthy (get_default (p_sku p) [])"
      by (simp add: ak_key_def Let_def split: if_splits)
    with None Cons show ?thesis by simp
  next
    case (Some k)
    then have t: "truthy (get_default (p_sku p) [])"
      and k: "on_val ak_normalize_sku (get_default (p_sku p) []) = k"
      by (simp_all add: ak_key_def Let_def split: if_splits)
    show ?thesis
    proof (cases "seen k")
      case None
      then have nS: "k \<notin> S" using Cons.prems by auto
      have d: "dom (seen(k \<mapsto> length cat)) = insert k S" using Cons.prems by simp
      have step: "ak_catalogue_loop un cn r (p # ps) cat seen =
          ak_catalogue_loop un cn r ps (cat @ [ak_entry un cn r p k]) (seen(k \<mapsto> length cat))"
        using t k None by simp
      show ?thesis unfolding step Cons.IH [OF d]
        using \<open>ak_key p = Some k\<close> nS by simp
    next
      case (Some i)
      then have "k \<in> S" using Cons.prems by auto
      then show ?thesis
        using \<open>ak_key p = Some k\<close> t k Some Cons.IH [OF Cons.prems] 
        by (simp add: Let_def map_category_update)
    qed
  qed
qed


lemma e_sku_entries [simp]:
  "e_sku (ak_entry un cn r p k) = k"
  "e_sku (vallejo_entry un cn r p k) = k"
  "e_sku (citadel_entry c h k) = k"
  by (simp_all add: ak_entry_def vallejo_entry_def citadel_entry_def Let_def)

lemma ak_loop_skus:
  "map e_sku (ak_catalogue_loop un cn r ps [] Map.empty) = map snd (new_recs ak_key ps {})"
proof -
  have "map e_sku (map (\<lambda>e. e\<lparr>e_category := Null\<rparr>) (ak_catalogue_loop un cn r ps [] Map.empty)) =
        map e_sku (map (\<lambda>(p, k). (ak_entry un cn r p k)\<lparr>e_category := Null\<rparr>) (new_recs ak_key ps {}))"
    using ak_loop_new_recs [of Map.empty "{}" Null un cn r ps "[]"] by simp
  then show ?thesis by (simp add: comp_def case_prod_unfold)
qed

lemma vallejo_loop_skus:
  "map e_sku (vallejo_catalogue_loop un cn r ps [] Map.empty) = map snd (new_recs vallejo_key ps {})"
  using vallejo_loop_new_recs [of Map.empty "{}" un cn r ps "[]"]
  by (simp add: comp_def case_prod_unfold)

lemma citadel_loop_skus:
  "map e_sku (citadel_catalogue_loop c ps [] Map.empty) = map snd (new_recs citadel_key ps {})"
  using citadel_loop_new_recs [of Map.empty "{}" c ps "[]"]
  by (simp add: comp_def case_prod_unfold)

lemma sort_key_map_facts:
  fixes f :: "'a \<Rightarrow> string"
  shows "sorted (map f (sort_key f xs))"
    and "distinct (map f xs) \<Longrightarrow> distinct (map f (sort_key f xs))"
    and "set (map f (sort_key f xs)) = set (map f xs)"
proof -
  show "sorted (map f (sort_key f xs))" by (rule sorted_sort_key)
  have m: "mset (map f (sort_key f xs)) = mset (map f xs)" by simp
  show "distinct (map f xs) \<Longrightarrow> distinct (map f (sort_key f xs))"
    using mset_eq_imp_distinct_iff [OF m] by simp
  show "set (map f (sort_key f xs)) = set (map f xs)" by simp
qed

lemma sorted_skus_unique:
  fixes f :: "'a \<Rightarrow> string"
  assumes "distinct (map f xs)" "distinct (map f ys)" "set (map f xs) = set (map f ys)"
  shows "map f (sort_key f xs) = map f (sort_key f ys)"
proof (rule sorted_distinct_set_unique)
  show "sorted (map f (sort_key f xs))" "sorted (map f (sort_key f ys))"
    by (rule sort_key_map_facts(1))+
  show "distinct (map f (sort_key f xs))" using assms(1) by (rule sort_key_map_facts(2))
  show "distinct (map f (sort_key f ys))" using assms(2) by (rule sort_key_map_facts(2))
  show "set (map f (sort_key f xs)) = set (map f (sort_key f ys))"
    using assms(3) by (simp only: sort_key_map_facts(3))
qed

lemma new_recs_keys_empty:
  "set (map snd (new_recs key ps {})) = {k. \<exists>p \<in> set ps. key p = Some k}"
  using new_recs_keys [of key ps "{}"] by simp

lemma ak_generate_catalogue_order:
  assumes "set xs = set ys"
  shows "map e_sku (ak_generate_catalogue un cn xs r) = map e_sku (ak_generate_catalogue un cn ys r)"
  unfolding ak_generate_catalogue_def
  by (rule sorted_skus_unique)
     (simp_all only: ak_loop_skus new_recs_distinct new_recs_keys_empty assms)

lemma vallejo_generate_catalogue_order:
  assumes "set xs = set ys"
  shows "map e_sku (vallejo_generate_catalogue un cn xs r) =
         map e_sku (vallejo_generate_catalogue un cn ys r)"
  unfolding vallejo_generate_catalogue_def
  by (rule sorted_skus_unique)
     (simp_all only: vallejo_loop_skus new_recs_distinct new_recs_keys_empty assms)

lemma ak_filter_loop:
  "ak_catalogue_loop un cn r (filter (\<lambda>p. truthy (get_default (p_sku p) [])) ps) cat seen =
   ak_catalogue_loop un cn r ps cat seen"
  by (induction ps arbitrary: cat seen) (simp_all add: Let_def split: option.splits)

lemma vallejo_filter_loop:
  "vallejo_catalogue_loop un cn r (filter (\<lambda>p. truthy (get_default (p_sku p) [])) ps) cat seen =
   vallejo_catalogue_loop un cn r ps cat seen"
  by (induction ps arbitrary: cat seen) (simp_all add: Let_def split: option.splits)

lemma citadel_filter_loop:
  "citadel_catalogue_loop c (filter (\<lambda>h. truthy (get_default (h_sku h) [])) hs) cat seen =
   citadel_catalogue_loop c hs cat seen"
proof (induction hs arbitrary: cat seen)
  case Nil
  then show ?case by simp
next
  case (Cons h hs)
  show ?case
  proof (cases "truthy (get_default (h_sku h) [])")
    case True
    then have "filter (\<lambda>h. truthy (get_default (h_sku h) [])) (h # hs) =
        h # filter (\<lambda>h. truthy (get_default (h_sku h) [])) hs" by simp
    then show ?thesis by (simp only: citadel_catalogue_loop.simps Let_def Cons.IH)
  next
    case False
    then have "on_val citadel_normalize_sku (get_default (h_sku h) []) = []"
      by (cases "get_default (h_sku h) []") (simp_all add: on_val_def citadel_normalize_sku_def)
    with False show ?thesis by (simp add: Cons.IH)
  qed
qed


lemma ak_key_Some:
  "ak_key p = Some k \<Longrightarrow> \<exists>s. p_sku p = Some (Str s) \<and> s \<noteq> [] \<and> k = ak_normalize_sku s"
  by (cases "p_sku p"; cases "the (p_sku p)")
     (auto simp: ak_key_def get_default_def on_val_def Let_def split: if_splits)

lemma vallejo_key_Some:
  "vallejo_key p = Some k \<Longrightarrow> \<exists>s. p_sku p = Some (Str s) \<and> s \<noteq> [] \<and> k = vallejo_normalize_sku s"
  by (cases "p_sku p"; cases "the (p_sku p)")
     (auto simp: vallejo_key_def get_default_def on_val_def Let_def split: if_splits)

lemma citadel_key_Some:
  "citadel_key h = Some k \<Longrightarrow>
   k \<noteq> [] \<and> (\<exists>s. h_sku h = Some (Str s) \<and> s \<noteq> [] \<and> k = citadel_normalize_sku s)"
  by (cases "h_sku h"; cases "the (h_sku h)")
     (auto simp: citadel_key_def get_default_def on_val_def Let_def citadel_normalize_sku_def
           split: if_splits)

lemma ak_loop_entry:
  assumes "e \<in> set (ak_catalogue_loop un cn r ps [] Map.empty)"
  shows "\<exists>p. (p, e_sku e) \<in> set (new_recs ak_key ps {}) \<and>
             e\<lparr>e_category := Null\<rparr> = (ak_entry un cn r p (e_sku e))\<lparr>e_category := Null\<rparr>"
proof -
  let ?u = "\<lambda>e. e\<lparr>e_category := Null\<rparr>"
  have "map ?u (ak_catalogue_loop un cn r ps [] Map.empty) =
        map (\<lambda>(p, k). ?u (ak_entry un cn r p k)) (new_recs ak_key ps {})"
    using ak_loop_new_recs [of Map.empty "{}" Null un cn r ps "[]"] by simp
  moreover from assms have "?u e \<in> set (map ?u (ak_catalogue_loop un cn r ps [] Map.empty))"
    by simp
  ultimately have "?u e \<in> set (map (\<lambda>(p, k). ?u (ak_entry un cn r p k)) (new_recs ak_key ps {}))"
    by simp
  then obtain p k where pk: "(p, k) \<in> set (new_recs ak_key ps {})"
    and eq: "?u e = ?u (ak_entry un cn r p k)" by auto
  from eq have "e_sku (?u e) = e_sku (?u (ak_entry un cn r p k))" by simp
  then have "e_sku e = k" by simp
  with pk eq show ?thesis by auto
qed

lemma vallejo_loop_entry:
  assumes "e \<in> set (vallejo_catalogue_loop un cn r ps [] Map.empty)"
  shows "\<exists>p. (p, e_sku e) \<in> set (new_recs vallejo_key ps {}) \<and>
             e = vallejo_entry un cn r p (e_sku e)"
proof -
  from assms obtain p k where pk: "(p, k) \<in> set (new_recs vallejo_key ps {})"
    and eq: "e = vallejo_entry un cn r p k"
    using vallejo_loop_new_recs [of Map.empty "{}" un cn r ps "[]"] by auto
  then show ?thesis by auto
qed

lemma citadel_loop_entry:
  assumes "e \<in> set (citadel_catalogue_loop c ps [] Map.empty)"
  shows "\<exists>p. (p, e_sku e) \<in> set (new_recs citadel_key ps {})"
proof -
  from assms obtain p k where pk: "(p, k) \<in> set (new_recs citadel_key ps {})"
    and eq: "e = citadel_entry c p k"
    using citadel_loop_new_recs [of Map.empty "{}" c ps "[]"] by auto
  then show ?thesis by auto
qed

lemma new_recs_member:
  "(p, k) \<in> set (new_recs key ps S) \<Longrightarrow> p \<in> set ps"
  by (induction ps arbitrary: S) (auto split: option.splits if_splits)




text \<open>
  A record whose \<open>sku\<close> is missing, \<open>None\<close> or empty contributes nothing to any of the three
  assemblers: the output is the one of the input without these records. Every entry carries
  the normalised form of the non-empty \<open>sku\<close> of some input record, never a value taken from
  a name or a URL. Citadel's assembler tests the normalised SKU, so its entries always have a
  non-empty \<open>sku\<close>.
\<close>

lemma generate_catalogue_skips_missing_sku:
  "ak_generate_catalogue un cn ps r =
     ak_generate_catalogue un cn (filter (\<lambda>p. truthy (get_default (p_sku p) [])) ps) r \<and>
   (\<forall>e \<in> set (ak_generate_catalogue un cn ps r).
      \<exists>p \<in> set ps. \<exists>s. p_sku p = Some (Str s) \<and> s \<noteq> [] \<and> e_sku e = ak_normalize_sku s) \<and>
   vallejo_generate_catalogue un cn ps r =
     vallejo_generate_catalogue un cn (filter (\<lambda>p. truthy (get_default (p_sku p) [])) ps) r \<and>
   (\<forall>e \<in> set (vallejo_generate_catalogue un cn ps r).
      \<exists>p \<in> set ps. \<exists>s. p_sku p = Some (Str s) \<and> s \<noteq> [] \<and> e_sku e = vallejo_normalize_sku s) \<and>
   citadel_generate_catalogue hs c =
     citadel_generate_catalogue (filter (\<lambda>h. truthy (get_default (h_sku h) [])) hs) c \<and>
   (\<forall>e \<in> set (citadel_generate_catalogue hs c).
      e_sku e \<noteq> [] \<and>
      (\<exists>h \<in> set hs. \<exists>s. h_sku h = Some (Str s) \<and> s \<noteq> [] \<and> e_sku e = citadel_normalize_sku s))"
proof (intro conjI ballI)
  show "ak_generate_catalogue un cn ps r =
     ak_generate_catalogue un cn (filter (\<lambda>p. truthy (get_default (p_sku p) [])) ps) r"
    by (simp add: ak_generate_catalogue_def ak_filter_loop)
  show "vallejo_generate_catalogue un cn ps r =
     vallejo_generate_catalogue un cn (filter (\<lambda>p. truthy (get_default (p_sku p) [])) ps) r"
    by (simp add: vallejo_generate_catalogue_def vallejo_filter_loop)
  show "citadel_generate_catalogue hs c =
     citadel_generate_catalogue (filter (\<lambda>h. truthy (get_default (h_sku h) [])) hs) c"
    by (simp add: citadel_generate_catalogue_def citadel_filter_loop)
next
  fix e assume "e \<in> set (ak_generate_catalogue un cn ps r)"
  then have "e \<in> set (ak_catalogue_loop un cn r ps [] Map.empty)"
    by (simp add: ak_generate_catalogue_def)
  from ak_loop_entry [OF this] obtain p where pk: "(p, e_sku e) \<in> set (new_recs ak_key ps {})"
    by auto
  then have "p \<in> set ps" and "ak_key p = Some (e_sku e)"
    by (auto dest: new_recs_member new_recs_first)
  then show "\<exists>p \<in> set ps. \<exists>s. p_sku p = Some (Str s) \<and> s \<noteq> [] \<and> e_sku e = ak_normalize_sku s"
    by (metis ak_key_Some)
next
  fix e assume "e \<in> set (vallejo_generate_catalogue un cn ps r)"
  then have "e \<in> set (vallejo_catalogue_loop un cn r ps [] Map.empty)"
    by (simp add: vallejo_generate_catalogue_def)
  from vallejo_loop_entry [OF this] obtain p
    where pk: "(p, e_sku e) \<in> set (new_recs vallejo_key ps {})" by auto
  then have "p \<in> set ps" and "vallejo_key p = Some (e_sku e)"
    by (auto dest: new_recs_member new_recs_first)
  then show "\<exists>p \<in> set ps. \<exists>s. p_sku p = Some (Str s) \<and> s \<noteq> [] \<and> e_sku e = vallejo_normalize_sku s"
    by (metis vallejo_key_Some)
next
  fix e assume "e \<in> set (citadel_generate_catalogue hs c)"
  then have "e \<in> set (citadel_catalogue_loop c hs [] Map.empty)"
    by (simp add: citadel_generate_catalogue_def)
  from citadel_loop_entry [OF this] obtain h
    where pk: "(h, e_sku e) \<in> set (new_recs citadel_key hs {})" by auto
  then have "h \<in> set hs" and "citadel_key h = Some (e_sku e)"
    by (auto dest: new_recs_member new_recs_first)
  then have both: "e_sku e \<noteq> [] \<and>
      (\<exists>h \<in> set hs. \<exists>s. h_sku h = Some (Str s) \<and> s \<noteq> [] \<and> e_sku e = citadel_normalize_sku s)"
    by (metis citadel_key_Some)
  from both show "e_sku e \<noteq> []" by simp
  from both show
    "\<exists>h \<in> set hs. \<exists>s. h_sku h = Some (Str s) \<and> s \<noteq> [] \<and> e_sku e = citadel_normalize_sku s"
    by simp
qed


text \<open>
  C3, as stated, fails for Citadel, whose assembler sorts by name: the entries of two paints
  come out with descending SKUs.
\<close>

theorem citadel_catalogue_order_counterexample:
  "map e_sku (citadel_generate_catalogue
      [raw_hit ''Abaddon Black'' ''99189950002'', raw_hit ''Zandri Dust'' ''99189950001''] None) =
     [''99189950002'', ''99189950001''] \<and>
   \<not> sorted [''99189950002'', ''99189950001'']"
  by code_simp

text \<open>
  C3, amended. AK's and Vallejo's \<open>generate_catalogue\<close> return the entries sorted by
  normalised SKU, ascending in the lexicographic order of the characters, and the sequence of
  SKUs is the same for every ordering of the same input records. Citadel's
  \<open>generate_catalogue\<close> returns the entries sorted by name.
\<close>

theorem generate_catalogue_sorted:
  "sorted (map e_sku (ak_generate_catalogue un cn ps r)) \<and>
   (mset ps = mset qs \<longrightarrow>
      map e_sku (ak_generate_catalogue un cn ps r) = map e_sku (ak_generate_catalogue un cn qs r)) \<and>
   sorted (map e_sku (vallejo_generate_catalogue un cn ps r)) \<and>
   (mset ps = mset qs \<longrightarrow>
      map e_sku (vallejo_generate_catalogue un cn ps r) =
      map e_sku (vallejo_generate_catalogue un cn qs r)) \<and>
   sorted (map (\<lambda>x. or_empty (e_name x)) (citadel_generate_catalogue hs c))"
proof (intro conjI impI)
  show "sorted (map e_sku (ak_generate_catalogue un cn ps r))"
    unfolding ak_generate_catalogue_def by (rule sorted_sort_key)
  show "sorted (map e_sku (vallejo_generate_catalogue un cn ps r))"
    unfolding vallejo_generate_catalogue_def by (rule sorted_sort_key)
  show "sorted (map (\<lambda>x. or_empty (e_name x)) (citadel_generate_catalogue hs c))"
    unfolding citadel_generate_catalogue_def by (rule sorted_sort_key)
next
  assume "mset ps = mset qs"
  then have "set ps = set qs" by (rule mset_eq_setD)
  then show "map e_sku (ak_generate_catalogue un cn ps r) =
             map e_sku (ak_generate_catalogue un cn qs r)"
    by (rule ak_generate_catalogue_order)
next
  assume "mset ps = mset qs"
  then have "set ps = set qs" by (rule mset_eq_setD)
  then show "map e_sku (vallejo_generate_catalogue un cn ps r) =
             map e_sku (vallejo_generate_catalogue un cn qs r)"
    by (rule vallejo_generate_catalogue_order)
qed

text \<open>
  An instance: two records in both orders give the SKUs \<open>AK1\<close>, \<open>AK2\<close>.
\<close>

theorem generate_catalogue_sorted_witness:
  "mset [raw_record ''Red'' ''AK2'', raw_record ''Blue'' ''AK1''] =
   mset [raw_record ''Blue'' ''AK1'', raw_record ''Red'' ''AK2''] \<and>
   map e_sku (ak_generate_catalogue (\<lambda>s. s) (\<lambda>s. s)
                [raw_record ''Red'' ''AK2'', raw_record ''Blue'' ''AK1''] ''R'') = [''AK1'', ''AK2''] \<and>
   map e_sku (ak_generate_catalogue (\<lambda>s. s) (\<lambda>s. s)
                [raw_record ''Blue'' ''AK1'', raw_record ''Red'' ''AK2''] ''R'') = [''AK1'', ''AK2'']"
proof -
  let ?ps = "[raw_record ''Red'' ''AK2'', raw_record ''Blue'' ''AK1'']"
  let ?qs = "[raw_record ''Blue'' ''AK1'', raw_record ''Red'' ''AK2'']"
  have m: "mset ?ps = mset ?qs" by (simp add: add.commute)
  have ev: "map e_sku (ak_generate_catalogue (\<lambda>s. s) (\<lambda>s. s) ?qs ''R'') = [''AK1'', ''AK2'']"
    by code_simp
  from m generate_catalogue_sorted [of "\<lambda>s. s" "\<lambda>s. s" ?ps "''R''" ?qs]
  have "map e_sku (ak_generate_catalogue (\<lambda>s. s) (\<lambda>s. s) ?ps ''R'') =
        map e_sku (ak_generate_catalogue (\<lambda>s. s) (\<lambda>s. s) ?qs ''R'')"
    by blast
  with m ev show ?thesis by simp
qed

section \<open>Paint type overrides\<close>


lemma medium_at_starts: "medium_at b s \<Longrightarrow> starts_with s ''medium''"
  by (auto simp: medium_at_def)

lemma starts_with_contains: "starts_with s sub \<Longrightarrow> contains sub s"
  by (cases s; cases sub) simp_all

lemma search_medium_from_none:
  "\<not> contains ''medium'' w \<Longrightarrow> \<not> search_medium_from b w"
  by (induction w arbitrary: b) (auto dest: medium_at_starts)

lemma search_medium_from_ws:
  assumes "list_all is_space ws" "\<not> search_medium_from True w" "\<not> medium_at False w"
  shows "ws \<noteq> [] \<Longrightarrow> \<not> search_medium_from b (ws @ w)"
  using assms(1)
proof (induction ws arbitrary: b)
  case Nil
  then show ?case by simp
next
  case (Cons c ws)
  then have sp: "is_space c" by simp
  then have nm: "c \<noteq> CHR ''m''" by (auto simp: is_space_def)
  then have na: "\<not> medium_at b (c # ws @ w)" by (auto simp: medium_at_def)
  from sp have nw: "\<not> is_word c"
    by (auto simp: is_word_def is_space_def is_lower_def is_upper_def is_digit_def Let_def)
  show ?case
  proof (cases ws)
    case Nil
    have "\<not> search_medium_from False w"
      using assms(2,3) by (cases w) auto
    with na nw Nil show ?thesis by simp
  next
    case (Cons d ds)
    with Cons.IH [of "is_word c"] Cons.prems have "\<not> search_medium_from (is_word c) (ws @ w)" by simp
    with na show ?thesis by simp
  qed
qed

lemma word_chars: "is_word CHR ''m''" "is_word CHR ''e''" "is_word CHR ''d''" "is_word CHR ''i''" "is_word CHR ''u''"
  by (simp_all add: is_word_def is_lower_def)

lemma search_medium_colour:
  assumes ws: "ws \<noteq> []" "list_all is_space ws"
    and w: "w \<noteq> []" "\<not> is_space (hd w)"
      "\<not> starts_with w ''for''" "\<not> starts_with w ''gen''" "\<not> starts_with w ''paint''"
      "\<not> contains ''medium'' w"
  shows "\<not> search_medium (''medium'' @ ws @ w)"
proof -
  have dw: "dropWhile is_space (ws @ w) = w"
    using ws(2) w(1,2) by (cases w) (simp_all add: dropWhile_append list_all_iff)
  have ne: "ws @ w \<noteq> [CHR 0x0A]"
    using ws w(1) by (cases ws) auto
  have a0: "\<not> medium_at False (''medium'' @ ws @ w)"
    using dw w(3,4,5) ws(1) ne by (simp add: medium_at_def Let_def)
  have rest: "\<not> search_medium_from True (ws @ w)"
    by (rule search_medium_from_ws [OF ws(2) _ _ ws(1)])
       (use w(6) in \<open>auto dest: medium_at_starts starts_with_contains search_medium_from_none\<close>)
  from ws obtain c cs where c: "ws = c # cs" "is_space c" by (cases ws) auto
  then have "c \<noteq> CHR ''e''" by (auto simp: is_space_def)
  then have "\<not> search_medium_from b (''edium'' @ ws @ w)" for b
    using rest c(1) by (simp add: medium_at_def word_chars)
  with a0 show ?thesis by (simp add: search_medium_def word_chars)
qed

lemma search_medium_suffix: "search_medium_from b (pre @ ''medium'')"
  by (induction pre arbitrary: b) (simp_all add: medium_at_def)


lemma starts_with_append: "starts_with s (a @ b) \<Longrightarrow> starts_with s a"
  by (induction s a rule: starts_with.induct) simp_all

lemma contains_append_left: "contains (a @ b) s \<Longrightarrow> contains a s"
proof (induction s)
  case Nil
  then show ?case by simp
next
  case (Cons c cs)
  then show ?case by (auto dest: starts_with_append)
qed

lemma contains_metallic_metal: "contains ''metallic'' n \<Longrightarrow> contains ''metal'' n"
  using contains_append_left [of "''metal''" "''lic''" n] by simp

text \<open>
  In AK's \<open>get_paint_type\<close> the word \<open>medium\<close> is an override only where it starts a
  word and is followed by whitespace and \<open>for\<close>, \<open>gen\<close> or \<open>paint\<close>, or where it ends the name.
  A name \<open>medium\<close>, whitespace and a word that starts with none of the three and holds no
  other keyword keeps the default type; a matching keyword gives one of the five override
  types whatever the default type is; a name that ends in \<open>medium\<close> is \<open>technical\<close>.
  Citadel's table types every name that contains \<open>medium\<close> as \<open>thinner\<close>, unless it is a
  varnish.
\<close>

lemma ak_medium_rule:
  "(lower (or_empty (get (p_title p))) = ''medium'' @ ws @ w \<and>
      ws \<noteq> [] \<and> list_all is_space ws \<and> w \<noteq> [] \<and> \<not> is_space (hd w) \<and>
      \<not> starts_with w ''for'' \<and> \<not> starts_with w ''gen'' \<and> \<not> starts_with w ''paint'' \<and>
      \<not> contains ''medium'' w \<and>
      \<not> contains ''varnish'' (''medium'' @ ws @ w) \<and> \<not> contains ''thinner'' (''medium'' @ ws @ w) \<and>
      \<not> contains ''primer'' (''medium'' @ ws @ w) \<and> \<not> contains ''metal'' (''medium'' @ ws @ w)
    \<longrightarrow> ak_get_paint_type p range_type = range_type) \<and>
   (contains ''varnish'' (lower (or_empty (get (p_title p)))) \<or>
    contains ''thinner'' (lower (or_empty (get (p_title p)))) \<or>
    contains ''primer'' (lower (or_empty (get (p_title p)))) \<or>
    search_medium (lower (or_empty (get (p_title p)))) \<or>
    contains ''metal'' (lower (or_empty (get (p_title p))))
    \<longrightarrow> ak_get_paint_type p range_type = ak_get_paint_type p other_type \<and>
        ak_get_paint_type p range_type \<in>
          {''varnish'', ''thinner'', ''primer'', ''technical'', ''metallic''}) \<and>
   (lower (or_empty (get (p_title p))) = pre @ ''medium'' \<and>
      \<not> contains ''varnish'' (pre @ ''medium'') \<and> \<not> contains ''thinner'' (pre @ ''medium'') \<and>
      \<not> contains ''primer'' (pre @ ''medium'')
    \<longrightarrow> ak_get_paint_type p range_type = ''technical'') \<and>
   (contains ''medium'' (lower name) \<and> name \<notin> set VARNISH_PAINTS \<and>
      \<not> contains ''varnish'' (lower name)
    \<longrightarrow> citadel_get_paint_type name category colour_range = ''thinner'')"
proof (intro conjI impI)
  assume a: "lower (or_empty (get (p_title p))) = ''medium'' @ ws @ w \<and>
      ws \<noteq> [] \<and> list_all is_space ws \<and> w \<noteq> [] \<and> \<not> is_space (hd w) \<and>
      \<not> starts_with w ''for'' \<and> \<not> starts_with w ''gen'' \<and> \<not> starts_with w ''paint'' \<and>
      \<not> contains ''medium'' w \<and>
      \<not> contains ''varnish'' (''medium'' @ ws @ w) \<and> \<not> contains ''thinner'' (''medium'' @ ws @ w) \<and>
      \<not> contains ''primer'' (''medium'' @ ws @ w) \<and> \<not> contains ''metal'' (''medium'' @ ws @ w)"
  then have "\<not> search_medium (''medium'' @ ws @ w)"
    by (intro search_medium_colour) simp_all
  moreover from a have "\<not> contains ''metallic'' (''medium'' @ ws @ w)"
    by (blast dest: contains_metallic_metal)
  ultimately show "ak_get_paint_type p range_type = range_type"
    using a by (simp add: ak_get_paint_type_def Let_def)
next
  assume "contains ''varnish'' (lower (or_empty (get (p_title p)))) \<or>
    contains ''thinner'' (lower (or_empty (get (p_title p)))) \<or>
    contains ''primer'' (lower (or_empty (get (p_title p)))) \<or>
    search_medium (lower (or_empty (get (p_title p)))) \<or>
    contains ''metal'' (lower (or_empty (get (p_title p))))"
  then show "ak_get_paint_type p range_type = ak_get_paint_type p other_type"
    and "ak_get_paint_type p range_type \<in>
          {''varnish'', ''thinner'', ''primer'', ''technical'', ''metallic''}"
    by (auto simp: ak_get_paint_type_def Let_def)
next
  assume a: "lower (or_empty (get (p_title p))) = pre @ ''medium'' \<and>
      \<not> contains ''varnish'' (pre @ ''medium'') \<and> \<not> contains ''thinner'' (pre @ ''medium'') \<and>
      \<not> contains ''primer'' (pre @ ''medium'')"
  have "search_medium (pre @ ''medium'')"
    unfolding search_medium_def by (rule search_medium_suffix)
  with a show "ak_get_paint_type p range_type = ''technical''"
    by (simp add: ak_get_paint_type_def Let_def)
next
  assume "contains ''medium'' (lower name) \<and> name \<notin> set VARNISH_PAINTS \<and>
      \<not> contains ''varnish'' (lower name)"
  then show "citadel_get_paint_type name category colour_range = ''thinner''"
    by (simp add: citadel_get_paint_type_def citadel_TYPE_OVERRIDES_def Let_def)
qed

text \<open>
  C6 on the three \<open>get_paint_type\<close>. The colour name \<open>Medium Blue\<close> keeps the default type
  of its range in AK's module only, which has the word rule for \<open>medium\<close>. Vallejo's module
  walks its table with a plain substring test and types the same name as \<open>technical\<close>;
  Citadel's does the same and types it as \<open>thinner\<close>. AK's rule itself only looks at the
  first letters of the next word, so \<open>Medium Forest Green\<close>, where \<open>for\<close> starts the next
  word, is typed \<open>technical\<close> as well.
\<close>

theorem get_paint_type_medium_blue:
  "vallejo_get_paint_type (raw_record ''Medium Blue'' ''70.963'') ''opaque'' = ''technical'' \<and>
   ak_get_paint_type (raw_record ''Medium Blue'' ''AK11001'') ''opaque'' = ''opaque'' \<and>
   citadel_get_paint_type ''Medium Blue'' ''Base'' Null = ''thinner'' \<and>
   ak_get_paint_type (raw_record ''Medium Forest Green'' ''AK11002'') ''opaque'' = ''technical''"
  by code_simp

section \<open>The scrape loops and pages without paints\<close>


text \<open>
  AK's loop stops at a page without raw items, whatever the page says about a next page,
  and it does not stop at a page whose items are all filtered out: it goes on to the next
  page with nothing added.
\<close>

lemma ak_scrape_stops_on_empty_page:
  assumes "page \<le> 50" "fetch_page page = Soup [] has_next"
  shows "ak_scrape_pages fetch_page set_skus sample_image sample_colors color_range page all_paints fetched =
         (all_paints, fetched @ [page])"
  using assms by (subst ak_scrape_pages.simps) simp

lemma ak_scrape_continues_after_filtered_page:
  assumes "page < 50" "fetch_page page = Soup raw True" "raw \<noteq> []"
    and "\<forall>p \<in> set raw. \<not> ak_is_paint_product set_skus p"
  shows "ak_scrape_pages fetch_page set_skus sample_image sample_colors color_range page all_paints fetched =
         ak_scrape_pages fetch_page set_skus sample_image sample_colors color_range (page + 1) all_paints
           (fetched @ [page])"
proof -
  from assms(4) have "filter (ak_is_paint_product set_skus) raw = []"
    by (simp add: filter_empty_conv)
  then have "ak_filter_page set_skus raw = []"
    by (simp add: ak_filter_page_def dedupe_by_name_def)
  with assms(1,2,3) show ?thesis
    by (subst ak_scrape_pages.simps) (simp add: Let_def)
qed

lemma vallejo_brush_page: "vallejo_filter_page True ''model-color-en'' [raw_record ''Brush Set'' ''B01''] = []"
  by code_simp

lemma vallejo_paint_page:
  "vallejo_filter_page True ''model-color-en'' [raw_record ''Dark Red'' ''70.926''] =
     [raw_record ''Dark Red'' ''70.926'']"
  by code_simp

text \<open>
  C7 on Vallejo's \<open>scrape_range\<close>: the loop tests the paints left after the filters. On a
  listing whose first page holds only a brush set and links to a second page with a paint,
  it stops after the first page: the second page is never fetched and its paint is missing
  from the result.
\<close>

theorem vallejo_scrape_stops_on_filtered_page:
  "scrape_range brush_site sample_image False True ''model-color-en'' =
     Some ([], [''https://acrylicosvallejo.com/en/category/hobby/model-color-en/'']) \<and>
   brush_site ''https://acrylicosvallejo.com/en/category/hobby/model-color-en/'' =
     VSoup [raw_record ''Brush Set'' ''B01'']
       (Str ''https://acrylicosvallejo.com/en/category/hobby/model-color-en/page/2/'') \<and>
   brush_site ''https://acrylicosvallejo.com/en/category/hobby/model-color-en/page/2/'' =
     VSoup [raw_record ''Dark Red'' ''70.926''] Null \<and>
   vallejo_filter_page True ''model-color-en'' [raw_record ''Dark Red'' ''70.926''] =
     [raw_record ''Dark Red'' ''70.926'']"
proof -
  have info: "map_of VALLEJO_RANGES ''model-color-en'' =
      Some \<lparr>r_name = ''Model Color'', r_range = ''Model Color'', r_type = ''opaque'',
             r_url = ''https://acrylicosvallejo.com/en/category/hobby/model-color-en/''\<rparr>"
    by (simp add: VALLEJO_RANGES_def vallejo_range_def)
  have "scrape_range brush_site sample_image False True ''model-color-en'' =
     Some ([], [''https://acrylicosvallejo.com/en/category/hobby/model-color-en/''])"
    unfolding scrape_range_def info
    by (subst vallejo_scrape_pages.simps) (simp add: brush_site_def vallejo_brush_page)
  then show ?thesis by (simp add: brush_site_def vallejo_paint_page)
qed

section \<open>The merge engine: idempotence and renumbered products\<close>


lemma truthy_get_default: "truthy (get f) \<Longrightarrow> get_default f d = get f"
  by (cases f) (simp_all add: get_def get_default_def)

lemma build_lookups_sound:
  assumes "build_lookups nsku nname fresh S0 N0 = (S, N)"
  shows "(S k = Some m \<longrightarrow>
            S0 k = Some m \<or> (m \<in> set fresh \<and> eligible m \<and> on_val nsku (get (p_sku m)) = k)) \<and>
         (N k = Some m \<longrightarrow> N0 k = Some m \<or> (m \<in> set fresh \<and> eligible m))"
  using assms
proof (induction fresh arbitrary: S0 N0)
  case Nil
  then show ?case by simp
next
  case (Cons p ps)
  show ?case
  proof (cases "eligible p")
    case False
    with Cons.prems have "build_lookups nsku nname ps S0 N0 = (S, N)"
      by (auto simp: eligible_def)
    from Cons.IH [OF this] show ?thesis by auto
  next
    case True
    let ?S1 = "S0(on_val nsku (get (p_sku p)) \<mapsto> p)"
    let ?N1 = "(let title = get_default (p_title p) [] in
                if truthy title then
                  (let norm_name = on_val nname title
                   in if norm_name \<noteq> [] \<and> N0 norm_name = None then N0(norm_name \<mapsto> p) else N0)
                else N0)"
    have step: "build_lookups nsku nname ps ?S1 ?N1 = (S, N)"
      using Cons.prems True by (simp add: eligible_def Let_def)
    have N1: "?N1 k = Some m \<Longrightarrow> N0 k = Some m \<or> m = p" for k m
      by (auto simp: Let_def split: if_splits)
    from Cons.IH [OF step] True N1 show ?thesis
      by (auto split: if_splits)
  qed
qed

lemma build_lookups_complete:
  assumes "build_lookups nsku nname fresh S0 N0 = (S, N)"
    and "S0 k \<noteq> None \<or> (\<exists>m \<in> set fresh. eligible m \<and> on_val nsku (get (p_sku m)) = k)"
  shows "S k \<noteq> None"
  using assms
proof (induction fresh arbitrary: S0 N0)
  case Nil
  then show ?case by simp
next
  case (Cons p ps)
  show ?case
  proof (cases "eligible p")
    case False
    with Cons.prems(1) have step: "build_lookups nsku nname ps S0 N0 = (S, N)"
      by (auto simp: eligible_def)
    from Cons.prems(2) False
    have "S0 k \<noteq> None \<or> (\<exists>m \<in> set ps. eligible m \<and> on_val nsku (get (p_sku m)) = k)"
      by auto
    from Cons.IH [OF step this] show ?thesis .
  next
    case True
    let ?S1 = "S0(on_val nsku (get (p_sku p)) \<mapsto> p)"
    let ?N1 = "(let title = get_default (p_title p) [] in
                if truthy title then
                  (let norm_name = on_val nname title
                   in if norm_name \<noteq> [] \<and> N0 norm_name = None then N0(norm_name \<mapsto> p) else N0)
                else N0)"
    have step: "build_lookups nsku nname ps ?S1 ?N1 = (S, N)"
      using Cons.prems(1) True by (simp add: eligible_def Let_def)
    from Cons.prems(2)
    have "?S1 k \<noteq> None \<or> (\<exists>m \<in> set ps. eligible m \<and> on_val nsku (get (p_sku m)) = k)"
      by auto
    from Cons.IH [OF step this] show ?thesis .
  qed
qed


lemma lookups_sku_sound:
  assumes "build_lookups nsku nname fresh Map.empty Map.empty = (S, N)" "S k = Some m"
  shows "m \<in> set fresh \<and> eligible m \<and> on_val nsku (get (p_sku m)) = k"
  using build_lookups_sound [OF assms(1), of k m] assms(2) by simp

lemma lookups_name_sound:
  assumes "build_lookups nsku nname fresh Map.empty Map.empty = (S, N)" "N k = Some m"
  shows "m \<in> set fresh \<and> eligible m"
  using build_lookups_sound [OF assms(1), of k m] assms(2) by simp

lemma lookups_sku_complete:
  assumes "build_lookups nsku nname fresh Map.empty Map.empty = (S, N)"
    "m \<in> set fresh" "eligible m"
  shows "S (on_val nsku (get (p_sku m))) \<noteq> None"
  using build_lookups_complete [OF assms(1), of "on_val nsku (get (p_sku m))"] assms(2,3) by blast

lemma eligible_get_default: "eligible m \<Longrightarrow> get_default (p_sku m) d = get (p_sku m)"
  by (simp add: eligible_def truthy_get_default)

lemma get_eq_truthy: "get f = v \<Longrightarrow> truthy v \<Longrightarrow> f = Some v"
  by (cases f) (auto simp: get_def)

lemma merge_entry_by_name:
  assumes L: "build_lookups nsku nname fresh Map.empty Map.empty = (S, N)"
    and nosku: "S (on_val nsku (get_default (s_sku e) [])) = None"
    and nn: "on_val nname (get_default (s_name e) []) \<noteq> []"
    and name: "N (on_val nname (get_default (s_name e) [])) = Some m"
  shows "merge_entry nsku nname S N e =
           (e\<lparr>s_hex := Some (get (p_hex m)), s_sku := Some (get (p_sku m)),
              s_url := (if truthy (get (p_product_url m)) then Some (get (p_product_url m))
                        else s_url e)\<rparr>,
            True, True, None)"
    and "get_default (s_sku e) [] \<noteq> get (p_sku m)"
    and "m \<in> set fresh" and "eligible m"
proof -
  from lookups_name_sound [OF L name] show m: "m \<in> set fresh" and el: "eligible m" by auto
  from lookups_sku_complete [OF L m el] nosku
  show ne: "get_default (s_sku e) [] \<noteq> get (p_sku m)" by auto
  have fm: "find_match nsku nname S N e = Some (m, ByName)"
    using nosku nn name by (simp add: find_match_def Let_def)
  from el have ts: "truthy (get (p_sku m))" and th: "truthy (get (p_hex m))"
    by (simp_all add: eligible_def)
  have hex: "(if get (s_hex e) \<noteq> get (p_hex m) then e\<lparr>s_hex := Some (get (p_hex m))\<rparr> else e) =
             e\<lparr>s_hex := Some (get (p_hex m))\<rparr>"
    using th by (auto dest: get_eq_truthy)
  show "merge_entry nsku nname S N e =
           (e\<lparr>s_hex := Some (get (p_hex m)), s_sku := Some (get (p_sku m)),
              s_url := (if truthy (get (p_product_url m)) then Some (get (p_product_url m))
                        else s_url e)\<rparr>,
            True, True, None)"
    unfolding merge_entry_def fm
    using ne ts by (simp add: Let_def hex eligible_get_default [OF el])
qed

lemma merge_entry_idem:
  assumes L: "build_lookups nsku nname fresh Map.empty Map.empty = (S, N)"
    and C: "consistent_hex nsku fresh"
    and e1: "e1 = fst (merge_entry nsku nname S N e)"
  shows "fst (merge_entry nsku nname S N e1) = e1 \<and>
         \<not> fst (snd (merge_entry nsku nname S N e1)) \<and>
         \<not> fst (snd (snd (merge_entry nsku nname S N e1)))"
proof (cases "find_match nsku nname S N e")
  case None
  then have "e1 = e" using e1 by (simp add: merge_entry_def)
  with None show ?thesis by (simp add: merge_entry_def)
next
  case (Some mt)
  obtain m t where mt: "mt = (m, t)" by (cases mt)
  show ?thesis
  proof (cases t)
    case BySku
    with Some mt have S: "S (on_val nsku (get_default (s_sku e) [])) = Some m"
      by (auto simp: find_match_def Let_def split: option.splits if_splits)
    from lookups_sku_sound [OF L S] have th: "truthy (get (p_hex m))" by (simp add: eligible_def)
    have e1': "e1 = (if get (s_hex e) \<noteq> get (p_hex m) then e\<lparr>s_hex := Some (get (p_hex m))\<rparr> else e)"
      using e1 Some mt BySku by (simp add: merge_entry_def Let_def)
    then have sku1: "s_sku e1 = s_sku e" and hex1: "get (s_hex e1) = get (p_hex m)"
      by (auto simp: get_def)
    have "find_match nsku nname S N e1 = Some (m, BySku)"
      using S sku1 by (simp add: find_match_def Let_def)
    then show ?thesis using hex1 by (simp add: merge_entry_def Let_def)
  next
    case ByName
    with Some mt have nosku: "S (on_val nsku (get_default (s_sku e) [])) = None"
      and nn: "on_val nname (get_default (s_name e) []) \<noteq> []"
      and name: "N (on_val nname (get_default (s_name e) [])) = Some m"
      by (auto simp: find_match_def Let_def split: option.splits if_splits)
    note bn = merge_entry_by_name [OF L nosku nn name]
    from bn(1) e1 have e1': "e1 = e\<lparr>s_hex := Some (get (p_hex m)), s_sku := Some (get (p_sku m)),
              s_url := (if truthy (get (p_product_url m)) then Some (get (p_product_url m))
                        else s_url e)\<rparr>"
      by simp
    then have sku1: "get_default (s_sku e1) [] = get (p_sku m)"
      and hex1: "get (s_hex e1) = get (p_hex m)"
      by (simp_all add: get_default_def get_def)
    from lookups_sku_complete [OF L bn(3) bn(4)]
    obtain q where q: "S (on_val nsku (get (p_sku m))) = Some q" by auto
    from lookups_sku_sound [OF L q]
    have "q \<in> set fresh" "eligible q" "on_val nsku (get (p_sku q)) = on_val nsku (get (p_sku m))"
      by auto
    with C bn(3) bn(4) have "get (p_hex q) = get (p_hex m)"
      unfolding consistent_hex_def by blast
    moreover have "find_match nsku nname S N e1 = Some (q, BySku)"
      using q sku1 by (simp add: find_match_def Let_def)
    ultimately show ?thesis using hex1 by (simp add: merge_entry_def Let_def)
  qed
qed

lemma merge_loop_idem:
  assumes L: "build_lookups nsku nname fresh Map.empty Map.empty = (S, N)"
    and C: "consistent_hex nsku fresh"
  shows "fst (merge_loop nsku nname S N (fst (merge_loop nsku nname S N es))) =
           fst (merge_loop nsku nname S N es) \<and>
         updated (snd (merge_loop nsku nname S N (fst (merge_loop nsku nname S N es)))) = 0 \<and>
         sku_changes (snd (merge_loop nsku nname S N (fst (merge_loop nsku nname S N es)))) = 0"
proof (induction es)
  case Nil
  then show ?case by simp
next
  case (Cons e es)
  let ?e1 = "fst (merge_entry nsku nname S N e)"
  from merge_entry_idem [OF L C refl, of e]
  have "fst (merge_entry nsku nname S N ?e1) = ?e1"
    "\<not> fst (snd (merge_entry nsku nname S N ?e1))"
    "\<not> fst (snd (snd (merge_entry nsku nname S N ?e1)))" by auto
  with Cons show ?case
    by (simp add: case_prod_unfold Let_def)
qed


lemma merge_file_idem:
  assumes L: "build_lookups nsku nname fresh Map.empty Map.empty = (S, N)"
    and C: "consistent_hex nsku fresh"
  shows "fst (merge_file nsku nname S N (fst (merge_file nsku nname S N data))) =
           fst (merge_file nsku nname S N data) \<and>
         (\<forall>r. snd (merge_file nsku nname S N (fst (merge_file nsku nname S N data))) = Some r
              \<longrightarrow> updated r = 0 \<and> sku_changes r = 0)"
  using merge_loop_idem [OF L C]
  by (cases data) (auto simp: merge_file_def case_prod_unfold Let_def)

lemma batch_loop_idem:
  assumes L: "build_lookups nsku nname fresh Map.empty Map.empty = (S, N)"
    and C: "consistent_hex nsku fresh"
  shows "files (batch_loop nsku nname S N (files (batch_loop nsku nname S N dir))) =
           files (batch_loop nsku nname S N dir) \<and>
         total_updated (batch_loop nsku nname S N (files (batch_loop nsku nname S N dir))) = 0 \<and>
         total_sku_updated (batch_loop nsku nname S N (files (batch_loop nsku nname S N dir))) = 0"
proof (induction dir)
  case Nil
  then show ?case by simp
next
  case (Cons f dir)
  obtain path data where f: "f = (path, data)" by (cases f)
  from merge_file_idem [OF L C, of data]
  have a: "fst (merge_file nsku nname S N (fst (merge_file nsku nname S N data))) =
        fst (merge_file nsku nname S N data)"
    and b: "\<And>r. snd (merge_file nsku nname S N (fst (merge_file nsku nname S N data))) = Some r
              \<Longrightarrow> updated r = 0 \<and> sku_changes r = 0"
    by blast+
  show ?case
    using Cons a b
    by (auto simp: f case_prod_unfold Let_def split: option.splits)
qed

lemma batch_update_idem:
  assumes C: "consistent_hex nsku fresh"
  shows "files (batch_update_json_files_with nsku nname
                  (files (batch_update_json_files_with nsku nname dir fresh)) fresh) =
           files (batch_update_json_files_with nsku nname dir fresh) \<and>
         total_updated (batch_update_json_files_with nsku nname
                  (files (batch_update_json_files_with nsku nname dir fresh)) fresh) = 0 \<and>
         total_sku_updated (batch_update_json_files_with nsku nname
                  (files (batch_update_json_files_with nsku nname dir fresh)) fresh) = 0"
proof -
  obtain S N where L: "build_lookups nsku nname fresh Map.empty Map.empty = (S, N)"
    by (cases "build_lookups nsku nname fresh Map.empty Map.empty")
  from batch_loop_idem [OF L C, of dir] show ?thesis
    by (simp add: batch_update_json_files_with_def L)
qed

lemma update_loop_idem:
  "fst (update_loop H (fst (update_loop H es))) = fst (update_loop H es)"
  by (induction es) (auto simp: case_prod_unfold Let_def split: option.splits)

lemma update_existing_json_idem:
  "fst (update_existing_json (fst (update_existing_json existing fresh)) fresh) =
   fst (update_existing_json existing fresh)"
  by (cases existing) (simp_all add: update_existing_json_def case_prod_unfold Let_def update_loop_idem)

lemma sku_to_hex_loop_dom:
  "dom (sku_to_hex_loop fresh H) =
     dom H \<union> {on_val ak_normalize_sku (get (p_sku p)) | p. p \<in> set fresh \<and> eligible p}"
  by (induction fresh arbitrary: H) (auto simp: eligible_def)

lemma update_loop_entries:
  "fst (update_loop H es) =
     map (\<lambda>paint. case H (on_val ak_normalize_sku (get_default (s_sku paint) [])) of
                     Some h \<Rightarrow> paint\<lparr>s_hex := Some h\<rparr> | None \<Rightarrow> paint) es"
  by (induction es) (auto simp: case_prod_unfold Let_def split: option.splits)

lemma update_loop_count:
  "snd (update_loop H es) =
     length (filter (\<lambda>paint. on_val ak_normalize_sku (get_default (s_sku paint) []) \<in> dom H) es)"
  by (induction es) (auto simp: case_prod_unfold Let_def split: option.splits)

lemma update_loop_count_again:
  "snd (update_loop H (fst (update_loop H es))) = snd (update_loop H es)"
  by (induction es) (auto simp: case_prod_unfold Let_def split: option.splits)

lemma update_existing_json_count:
  "snd (update_existing_json existing fresh) =
     (if existing = Unrecognized then None
      else Some (length (filter (\<lambda>paint. on_val ak_normalize_sku (get_default (s_sku paint) [])
                                          \<in> dom (sku_to_hex_loop fresh Map.empty))
                           (paints_of existing))))"
  by (cases existing)
     (simp_all add: update_existing_json_def paints_of_def case_prod_unfold Let_def update_loop_count)

lemma update_existing_json_count_again:
  "snd (update_existing_json (fst (update_existing_json existing fresh)) fresh) =
   snd (update_existing_json existing fresh)"
  by (cases existing)
     (simp_all add: update_existing_json_def case_prod_unfold Let_def update_loop_count_again)


text \<open>
  C1, as stated, fails for the single-file merge: \<open>update_existing_json\<close> counts every
  entry whose SKU is in the lookup, changed or not, so the second run on the entry
  \<open>AK123\<close> reports 1 again.
\<close>

theorem update_existing_json_count_counterexample:
  "update_existing_json (Flat [stored_entry ''AK123'' ''Wood Brown'' []])
       [fresh_record ''Wood Brown'' ''ak 123'' ''#112233''] =
     (Flat [stored_entry ''AK123'' ''Wood Brown'' ''#112233''], Some 1) \<and>
   update_existing_json (Flat [stored_entry ''AK123'' ''Wood Brown'' ''#112233''])
       [fresh_record ''Wood Brown'' ''ak 123'' ''#112233''] =
     (Flat [stored_entry ''AK123'' ''Wood Brown'' ''#112233''], Some 1)"
  by code_simp

text \<open>
  The batch merge can change an entry on the second run when two fresh records share a
  normalised SKU but not the hex: the name lookup keeps the first of them and the SKU lookup
  the last.
\<close>

lemma batch_update_inconsistent_scrape:
  "files (ak_batch_update_json_files [(''a.json'', Flat [stored_entry ''OLD1'' ''Red'' []])]
       [fresh_record ''Red'' ''AK1'' ''#111111'', fresh_record ''Blue'' ''AK1'' ''#222222'']) =
     [(''a.json'', Flat [stored_entry ''AK1'' ''Red'' ''#111111''])] \<and>
   ak_batch_update_json_files [(''a.json'', Flat [stored_entry ''AK1'' ''Red'' ''#111111''])]
       [fresh_record ''Red'' ''AK1'' ''#111111'', fresh_record ''Blue'' ''AK1'' ''#222222''] =
     \<lparr>files = [(''a.json'', Flat [stored_entry ''AK1'' ''Red'' ''#222222''])],
      total_updated = 1, total_sku_updated = 0,
      reports = [(''a.json'', Some \<lparr>updated = 1, sku_changes = 0, not_found = []\<rparr>)]\<rparr>"
  by code_simp

text \<open>
  C1, amended. Running \<open>update_existing_json\<close> a second time with the same fresh records
  leaves the catalogue as the first run left it, for both file shapes (and a file that is
  not recognised is never touched). The count it reports is the number of entries whose
  normalised SKU is in the lookup \<open>sku_to_hex\<close>, on the first run and again on the second;
  the lookup holds the normalised SKUs of the fresh records that have a SKU and a hex.
  Running \<open>batch_update_json_files\<close> a second time leaves every file as the first run left
  it and reports no update and no changed SKU, provided that fresh records with the same
  normalised SKU carry the same hex.
\<close>

theorem merge_idempotent:
  "fst (update_existing_json (fst (update_existing_json existing scraped_data)) scraped_data) =
     fst (update_existing_json existing scraped_data) \<and>
   snd (update_existing_json existing scraped_data) =
     (if existing = Unrecognized then None
      else Some (length (filter (\<lambda>paint. on_val ak_normalize_sku (get_default (s_sku paint) [])
                                          \<in> dom (sku_to_hex_loop scraped_data Map.empty))
                           (paints_of existing)))) \<and>
   snd (update_existing_json (fst (update_existing_json existing scraped_data)) scraped_data) =
     snd (update_existing_json existing scraped_data) \<and>
   dom (sku_to_hex_loop scraped_data Map.empty) =
     {on_val ak_normalize_sku (get (p_sku p)) | p. p \<in> set scraped_data \<and> eligible p} \<and>
   (consistent_hex ak_normalize_sku scraped_data \<longrightarrow>
      files (ak_batch_update_json_files
               (files (ak_batch_update_json_files directory scraped_data)) scraped_data) =
        files (ak_batch_update_json_files directory scraped_data) \<and>
      total_updated (ak_batch_update_json_files
               (files (ak_batch_update_json_files directory scraped_data)) scraped_data) = 0 \<and>
      total_sku_updated (ak_batch_update_json_files
               (files (ak_batch_update_json_files directory scraped_data)) scraped_data) = 0)"
proof -
  note state = update_existing_json_idem [of existing scraped_data]
  note count = update_existing_json_count [of existing scraped_data]
  note again = update_existing_json_count_again [of existing scraped_data]
  have lookup: "dom (sku_to_hex_loop scraped_data Map.empty) =
     {on_val ak_normalize_sku (get (p_sku p)) | p. p \<in> set scraped_data \<and> eligible p}"
    by (simp add: sku_to_hex_loop_dom)
  have batch: "consistent_hex ak_normalize_sku scraped_data \<longrightarrow>
      files (ak_batch_update_json_files
               (files (ak_batch_update_json_files directory scraped_data)) scraped_data) =
        files (ak_batch_update_json_files directory scraped_data) \<and>
      total_updated (ak_batch_update_json_files
               (files (ak_batch_update_json_files directory scraped_data)) scraped_data) = 0 \<and>
      total_sku_updated (ak_batch_update_json_files
               (files (ak_batch_update_json_files directory scraped_data)) scraped_data) = 0"
    using batch_update_idem [of ak_normalize_sku scraped_data ak_normalize_name directory]
    by (simp add: ak_batch_update_json_files_def)
  from state count again lookup batch show ?thesis by (intro conjI)
qed

text \<open>
  An instance on a wrapper file: the first run updates the entry, the second counts nothing.
\<close>

theorem merge_idempotent_witness:
  "consistent_hex ak_normalize_sku [fresh_record ''Wood Brown'' ''ak 123'' ''#112233''] \<and>
   ak_batch_update_json_files
       [(''a.json'', Wrapper [(''range'', Str ''3rd Generation'')] [stored_entry ''AK123'' ''Wood Brown'' []])]
       [fresh_record ''Wood Brown'' ''ak 123'' ''#112233''] =
     \<lparr>files = [(''a.json'', Wrapper [(''range'', Str ''3rd Generation'')]
                               [stored_entry ''AK123'' ''Wood Brown'' ''#112233''])],
      total_updated = 1, total_sku_updated = 0,
      reports = [(''a.json'', Some \<lparr>updated = 1, sku_changes = 0, not_found = []\<rparr>)]\<rparr> \<and>
   total_updated (ak_batch_update_json_files
       [(''a.json'', Wrapper [(''range'', Str ''3rd Generation'')]
                       [stored_entry ''AK123'' ''Wood Brown'' ''#112233''])]
       [fresh_record ''Wood Brown'' ''ak 123'' ''#112233'']) = 0"
proof -
  let ?fresh = "[fresh_record ''Wood Brown'' ''ak 123'' ''#112233'']"
  let ?dir = "[(''a.json'', Wrapper [(''range'', Str ''3rd Generation'')]
                  [stored_entry ''AK123'' ''Wood Brown'' []])]"
  have c: "consistent_hex ak_normalize_sku ?fresh"
    by (simp add: consistent_hex_def)
  have ev: "ak_batch_update_json_files ?dir ?fresh =
     \<lparr>files = [(''a.json'', Wrapper [(''range'', Str ''3rd Generation'')]
                               [stored_entry ''AK123'' ''Wood Brown'' ''#112233''])],
      total_updated = 1, total_sku_updated = 0,
      reports = [(''a.json'', Some \<lparr>updated = 1, sku_changes = 0, not_found = []\<rparr>)]\<rparr>"
    by code_simp
  from c merge_idempotent [of _ ?fresh ?dir]
  have "total_updated (ak_batch_update_json_files
               (files (ak_batch_update_json_files ?dir ?fresh)) ?fresh) = 0" by blast
  with c ev show ?thesis by simp
qed


lemma batch_single_renamed:
  assumes "renamed_match nsku nname fresh e m"
  shows "merge_entry nsku nname (sku_lookup nsku nname fresh) (name_lookup nsku nname fresh) e =
           (renamed e m, True, True, None) \<and>
         batch_update_json_files_with nsku nname [(path, Flat [e])] fresh =
           \<lparr>files = [(path, Flat [renamed e m])], total_updated = 1, total_sku_updated = 1,
            reports = [(path, Some \<lparr>updated = 1, sku_changes = 1, not_found = []\<rparr>)]\<rparr> \<and>
         get_default (s_sku e) [] \<noteq> get (p_sku m) \<and> m \<in> set fresh \<and> eligible m"
proof -
  obtain S N where L: "build_lookups nsku nname fresh Map.empty Map.empty = (S, N)"
    by (cases "build_lookups nsku nname fresh Map.empty Map.empty")
  then have SN: "sku_lookup nsku nname fresh = S" "name_lookup nsku nname fresh = N"
    by (simp_all add: sku_lookup_def name_lookup_def)
  from assms have h: "S (on_val nsku (get_default (s_sku e) [])) = None"
    "on_val nname (get_default (s_name e) []) \<noteq> []"
    "N (on_val nname (get_default (s_name e) [])) = Some m"
    by (simp_all add: renamed_match_def SN)
  note bn = merge_entry_by_name [OF L h]
  from bn(1) have me: "merge_entry nsku nname S N e = (renamed e m, True, True, None)"
    by (simp add: renamed_def)
  then have "batch_update_json_files_with nsku nname [(path, Flat [e])] fresh =
           \<lparr>files = [(path, Flat [renamed e m])], total_updated = 1, total_sku_updated = 1,
            reports = [(path, Some \<lparr>updated = 1, sku_changes = 1, not_found = []\<rparr>)]\<rparr>"
    by (simp add: batch_update_json_files_with_def L merge_file_def)
  with me bn(2,3,4) show ?thesis by (simp add: SN)
qed

lemma merge_loop_char:
  "merge_loop nsku nname S N es =
     (map (\<lambda>e. fst (merge_entry nsku nname S N e)) es,
      \<lparr>updated = length (filter (\<lambda>e. fst (snd (merge_entry nsku nname S N e))) es),
       sku_changes = length (filter (\<lambda>e. fst (snd (snd (merge_entry nsku nname S N e)))) es),
       not_found = concat (map (\<lambda>e. case snd (snd (snd (merge_entry nsku nname S N e))) of
                                        Some s \<Rightarrow> [s] | None \<Rightarrow> []) es)\<rparr>)"
  by (induction es) (simp_all add: case_prod_unfold Let_def)

lemma merge_entry_flags:
  assumes L: "build_lookups nsku nname fresh Map.empty Map.empty = (S, N)"
  shows "fst (snd (snd (merge_entry nsku nname S N e))) \<longleftrightarrow> has_renamed_match nsku nname fresh e"
    and "fst (snd (merge_entry nsku nname S N e)) \<longleftrightarrow>
           has_renamed_match nsku nname fresh e \<or> stale_hex nsku nname fresh e"
proof -
  from L have SN: "sku_lookup nsku nname fresh = S" "name_lookup nsku nname fresh = N"
    by (simp_all add: sku_lookup_def name_lookup_def)
  let ?k = "on_val nsku (get_default (s_sku e) [])"
  let ?n = "on_val nname (get_default (s_name e) [])"
  have "(fst (snd (snd (merge_entry nsku nname S N e))) \<longleftrightarrow> has_renamed_match nsku nname fresh e) \<and>
        (fst (snd (merge_entry nsku nname S N e)) \<longleftrightarrow>
           has_renamed_match nsku nname fresh e \<or> stale_hex nsku nname fresh e)"
  proof (cases "S ?k")
    case (Some q)
    then have "find_match nsku nname S N e = Some (q, BySku)"
      by (simp add: find_match_def)
    with Some show ?thesis
      by (simp add: merge_entry_def Let_def has_renamed_match_def stale_hex_def SN)
  next
    case None
    show ?thesis
    proof (cases "?n \<noteq> [] \<and> N ?n \<noteq> None")
      case True
      then obtain m where m: "N ?n = Some m" by auto
      from True have nn: "?n \<noteq> []" by simp
      from merge_entry_by_name(1) [OF L None nn m] None True show ?thesis
        by (simp add: has_renamed_match_def SN)
    next
      case False
      then have "find_match nsku nname S N e = None"
        using None by (auto simp: find_match_def Let_def)
      with None False show ?thesis
        by (auto simp: merge_entry_def has_renamed_match_def stale_hex_def SN)
    qed
  qed
  then show "fst (snd (snd (merge_entry nsku nname S N e))) \<longleftrightarrow> has_renamed_match nsku nname fresh e"
    and "fst (snd (merge_entry nsku nname S N e)) \<longleftrightarrow>
           has_renamed_match nsku nname fresh e \<or> stale_hex nsku nname fresh e"
    by simp_all
qed

lemma merge_file_char:
  assumes L: "build_lookups nsku nname fresh Map.empty Map.empty = (S, N)"
  shows "fst (merge_file nsku nname S N data) =
           map_paints (\<lambda>e. fst (merge_entry nsku nname S N e)) data"
    and "(case snd (merge_file nsku nname S N data) of
            Some r \<Rightarrow> if 0 < updated r then (updated r, sku_changes r) else (0, 0)
          | None \<Rightarrow> (0, 0)) =
         (length (filter (\<lambda>e. has_renamed_match nsku nname fresh e \<or> stale_hex nsku nname fresh e)
                    (paints_of data)),
          length (filter (has_renamed_match nsku nname fresh) (paints_of data)))"
proof -
  show "fst (merge_file nsku nname S N data) =
           map_paints (\<lambda>e. fst (merge_entry nsku nname S N e)) data"
    by (cases data) (simp_all add: merge_file_def map_paints_def merge_loop_char)
  have le: "length (filter (has_renamed_match nsku nname fresh) es) \<le>
      length (filter (\<lambda>e. has_renamed_match nsku nname fresh e \<or> stale_hex nsku nname fresh e) es)"
    for es by (induction es) auto
  have z: "(if 0 < u then (u, s) else (0, 0)) = (u, s)" if "s \<le> u" for u s :: nat
    using that by auto
  have em: "filter (\<lambda>e. has_renamed_match nsku nname fresh e \<or> stale_hex nsku nname fresh e) es = []
      \<longrightarrow> filter (has_renamed_match nsku nname fresh) es = []" for es
    by (simp add: filter_empty_conv)
  show "(case snd (merge_file nsku nname S N data) of
            Some r \<Rightarrow> if 0 < updated r then (updated r, sku_changes r) else (0, 0)
          | None \<Rightarrow> (0, 0)) =
         (length (filter (\<lambda>e. has_renamed_match nsku nname fresh e \<or> stale_hex nsku nname fresh e)
                    (paints_of data)),
          length (filter (has_renamed_match nsku nname fresh) (paints_of data)))"
    by (cases data)
       (simp_all add: merge_file_def paints_of_def merge_loop_char merge_entry_flags [OF L] z le em)
qed

lemma batch_loop_char:
  assumes L: "build_lookups nsku nname fresh Map.empty Map.empty = (S, N)"
  shows "files (batch_loop nsku nname S N dir) =
           map (\<lambda>(json_path, data).
                  (json_path, map_paints (\<lambda>e. fst (merge_entry nsku nname S N e)) data)) dir \<and>
         total_updated (batch_loop nsku nname S N dir) =
           sum_list (map (\<lambda>(json_path, data).
              length (filter (\<lambda>e. has_renamed_match nsku nname fresh e \<or> stale_hex nsku nname fresh e)
                        (paints_of data))) dir) \<and>
         total_sku_updated (batch_loop nsku nname S N dir) =
           sum_list (map (\<lambda>(json_path, data).
              length (filter (has_renamed_match nsku nname fresh) (paints_of data))) dir)"
proof (induction dir)
  case Nil
  then show ?case by simp
next
  case (Cons f dir)
  obtain path data where f: "f = (path, data)" by (cases f)
  note mf = merge_file_char [OF L, of data]
  show ?case
    using Cons mf(2)
    by (simp add: f case_prod_unfold Let_def mf(1))
qed

lemma batch_update_char:
  "files (batch_update_json_files_with nsku nname dir fresh) =
     map (\<lambda>(json_path, data).
            (json_path, map_paints (\<lambda>e. fst (merge_entry nsku nname (sku_lookup nsku nname fresh)
                                               (name_lookup nsku nname fresh) e)) data)) dir \<and>
   total_updated (batch_update_json_files_with nsku nname dir fresh) =
     sum_list (map (\<lambda>(json_path, data).
        length (filter (\<lambda>e. has_renamed_match nsku nname fresh e \<or> stale_hex nsku nname fresh e)
                  (paints_of data))) dir) \<and>
   total_sku_updated (batch_update_json_files_with nsku nname dir fresh) =
     sum_list (map (\<lambda>(json_path, data).
        length (filter (has_renamed_match nsku nname fresh) (paints_of data))) dir)"
proof -
  obtain S N where L: "build_lookups nsku nname fresh Map.empty Map.empty = (S, N)"
    by (cases "build_lookups nsku nname fresh Map.empty Map.empty")
  then have SN: "sku_lookup nsku nname fresh = S" "name_lookup nsku nname fresh = N"
    by (simp_all add: sku_lookup_def name_lookup_def)
  from batch_loop_char [OF L, of dir] show ?thesis
    by (simp add: batch_update_json_files_with_def L SN)
qed


lemma has_renamed_match_iff:
  "has_renamed_match nsku nname fresh e \<longleftrightarrow> (\<exists>m. renamed_match nsku nname fresh e m)"
  by (auto simp: has_renamed_match_def renamed_match_def)

lemma batch_rename_lifted:
  "files (batch_update_json_files_with nsku nname dir fresh) =
     map (\<lambda>(json_path, data).
            (json_path, map_paints (\<lambda>e. fst (merge_entry nsku nname (sku_lookup nsku nname fresh)
                                               (name_lookup nsku nname fresh) e)) data)) dir \<and>
   (renamed_match nsku nname fresh e m \<longrightarrow>
      merge_entry nsku nname (sku_lookup nsku nname fresh) (name_lookup nsku nname fresh) e =
           (renamed e m, True, True, None) \<and>
      batch_update_json_files_with nsku nname [(path, Flat [e])] fresh =
           \<lparr>files = [(path, Flat [renamed e m])], total_updated = 1, total_sku_updated = 1,
            reports = [(path, Some \<lparr>updated = 1, sku_changes = 1, not_found = []\<rparr>)]\<rparr> \<and>
      get_default (s_sku e) [] \<noteq> get (p_sku m) \<and> m \<in> set fresh \<and> eligible m) \<and>
   (has_renamed_match nsku nname fresh e \<longleftrightarrow> (\<exists>m. renamed_match nsku nname fresh e m)) \<and>
   total_sku_updated (batch_update_json_files_with nsku nname dir fresh) =
     sum_list (map (\<lambda>(json_path, data).
        length (filter (has_renamed_match nsku nname fresh) (paints_of data))) dir) \<and>
   total_updated (batch_update_json_files_with nsku nname dir fresh) =
     sum_list (map (\<lambda>(json_path, data).
        length (filter (\<lambda>e. has_renamed_match nsku nname fresh e \<or> stale_hex nsku nname fresh e)
                  (paints_of data))) dir)"
  using batch_update_char [of nsku nname dir fresh] batch_single_renamed [of nsku nname fresh e m path]
    has_renamed_match_iff [of nsku nname fresh e]
  by (intro conjI impI) simp_all

text \<open>
  C2, as stated, fails on its own example: the fresh record \<open>09703\<close> carries no product URL,
  so the entry gets the new SKU and the hex, both counters are 1, and the URL of the entry
  stays the old one.
\<close>

theorem batch_merge_url_counterexample:
  "ak_batch_update_json_files
       [(''a.json'', Flat [\<lparr>s_sku = Some (Str ''09701''), s_name = Some (Str ''Old Name''),
                            s_hex = None, s_url = Some (Str ''https://old.example/09701'')\<rparr>])]
       [fresh_record ''Old Name'' ''09703'' ''#112233''] =
     \<lparr>files = [(''a.json'', Flat [\<lparr>s_sku = Some (Str ''09703''), s_name = Some (Str ''Old Name''),
                            s_hex = Some (Str ''#112233''),
                            s_url = Some (Str ''https://old.example/09701'')\<rparr>])],
      total_updated = 1, total_sku_updated = 1,
      reports = [(''a.json'', Some \<lparr>updated = 1, sku_changes = 1, not_found = []\<rparr>)]\<rparr>"
  by code_simp

text \<open>
  C2, amended. The batch merge of AK and of Vallejo rewrites every file of the directory
  entry by entry, in both shapes, with the body of its loop. An entry whose normalised SKU is
  absent from the SKU lookup and whose non-empty normalised name maps, in the name lookup,
  to a fresh record gets the SKU and the hex of that record, and its URL when the record
  carries one (the URL of the entry is left as it is otherwise). The SKU of the record
  differs from the stored one, and the record is one of the fresh records with a SKU and a
  hex. The total of changed SKUs is the number of such entries in the directory, and each of
  them is counted in the total of updates, together with the entries found by SKU whose hex
  was stale.
\<close>

theorem batch_merge_sku_rename:
  "(files (ak_batch_update_json_files directory scraped_data) =
      map (\<lambda>(json_path, data).
             (json_path,
              map_paints (\<lambda>paint. fst (merge_entry ak_normalize_sku ak_normalize_name
                                          (sku_lookup ak_normalize_sku ak_normalize_name scraped_data)
                                          (name_lookup ak_normalize_sku ak_normalize_name scraped_data) paint))
                data)) directory \<and>
    (renamed_match ak_normalize_sku ak_normalize_name scraped_data paint m \<longrightarrow>
       merge_entry ak_normalize_sku ak_normalize_name
           (sku_lookup ak_normalize_sku ak_normalize_name scraped_data)
           (name_lookup ak_normalize_sku ak_normalize_name scraped_data) paint =
         (renamed paint m, True, True, None) \<and>
       ak_batch_update_json_files [(json_path, Flat [paint])] scraped_data =
         \<lparr>files = [(json_path, Flat [renamed paint m])], total_updated = 1, total_sku_updated = 1,
          reports = [(json_path, Some \<lparr>updated = 1, sku_changes = 1, not_found = []\<rparr>)]\<rparr> \<and>
       get_default (s_sku paint) [] \<noteq> get (p_sku m) \<and> m \<in> set scraped_data \<and> eligible m) \<and>
    (has_renamed_match ak_normalize_sku ak_normalize_name scraped_data paint \<longleftrightarrow>
       (\<exists>m. renamed_match ak_normalize_sku ak_normalize_name scraped_data paint m)) \<and>
    total_sku_updated (ak_batch_update_json_files directory scraped_data) =
      sum_list (map (\<lambda>(json_path, data).
         length (filter (has_renamed_match ak_normalize_sku ak_normalize_name scraped_data)
                   (paints_of data))) directory) \<and>
    total_updated (ak_batch_update_json_files directory scraped_data) =
      sum_list (map (\<lambda>(json_path, data).
         length (filter (\<lambda>paint. has_renamed_match ak_normalize_sku ak_normalize_name scraped_data paint \<or>
                                  stale_hex ak_normalize_sku ak_normalize_name scraped_data paint)
                   (paints_of data))) directory)) \<and>
   (files (vallejo_batch_update_json_files directory scraped_data) =
      map (\<lambda>(json_path, data).
             (json_path,
              map_paints (\<lambda>paint. fst (merge_entry vallejo_normalize_sku vallejo_normalize_name
                                          (sku_lookup vallejo_normalize_sku vallejo_normalize_name scraped_data)
                                          (name_lookup vallejo_normalize_sku vallejo_normalize_name scraped_data) paint))
                data)) directory \<and>
    (renamed_match vallejo_normalize_sku vallejo_normalize_name scraped_data paint m \<longrightarrow>
       merge_entry vallejo_normalize_sku vallejo_normalize_name
           (sku_lookup vallejo_normalize_sku vallejo_normalize_name scraped_data)
           (name_lookup vallejo_normalize_sku vallejo_normalize_name scraped_data) paint =
         (renamed paint m, True, True, None) \<and>
       vallejo_batch_update_json_files [(json_path, Flat [paint])] scraped_data =
         \<lparr>files = [(json_path, Flat [renamed paint m])], total_updated = 1, total_sku_updated = 1,
          reports = [(json_path, Some \<lparr>updated = 1, sku_changes = 1, not_found = []\<rparr>)]\<rparr> \<and>
       get_default (s_sku paint) [] \<noteq> get (p_sku m) \<and> m \<in> set scraped_data \<and> eligible m) \<and>
    (has_renamed_match vallejo_normalize_sku vallejo_normalize_name scraped_data paint \<longleftrightarrow>
       (\<exists>m. renamed_match vallejo_normalize_sku vallejo_normalize_name scraped_data paint m)) \<and>
    total_sku_updated (vallejo_batch_update_json_files directory scraped_data) =
      sum_list (map (\<lambda>(json_path, data).
         length (filter (has_renamed_match vallejo_normalize_sku vallejo_normalize_name scraped_data)
                   (paints_of data))) directory) \<and>
    total_updated (vallejo_batch_update_json_files directory scraped_data) =
      sum_list (map (\<lambda>(json_path, data).
         length (filter (\<lambda>paint. has_renamed_match vallejo_normalize_sku vallejo_normalize_name scraped_data paint \<or>
                                  stale_hex vallejo_normalize_sku vallejo_normalize_name scraped_data paint)
                   (paints_of data))) directory))"
  using batch_rename_lifted [of ak_normalize_sku ak_normalize_name directory scraped_data paint m json_path]
    batch_rename_lifted [of vallejo_normalize_sku vallejo_normalize_name directory scraped_data paint m json_path]
  unfolding ak_batch_update_json_files_def vallejo_batch_update_json_files_def
  by (intro conjI) blast+



text \<open>
  Instances: a directory of a flat file and a wrapper file against a scrape in which the
  product \<open>09701\<close> named \<open>Old Name\<close> has become \<open>09703\<close>, in Vallejo's merge, and an AK
  entry against a renumbered AK record.
\<close>

theorem batch_merge_sku_rename_witness:
  "renamed_match vallejo_normalize_sku vallejo_normalize_name renumbered_scrape
     (stored_entry ''09701'' ''Old Name'' []) (hd renumbered_scrape) \<and>
   merge_entry vallejo_normalize_sku vallejo_normalize_name
       (sku_lookup vallejo_normalize_sku vallejo_normalize_name renumbered_scrape)
       (name_lookup vallejo_normalize_sku vallejo_normalize_name renumbered_scrape)
       (stored_entry ''09701'' ''Old Name'' []) =
     (\<lparr>s_sku = Some (Str ''09703''), s_name = Some (Str ''Old Name''),
       s_hex = Some (Str ''#112233''), s_url = Some (Str ''https://v.example/09703'')\<rparr>,
      True, True, None) \<and>
   vallejo_batch_update_json_files renumbered_directory renumbered_scrape =
     \<lparr>files =
        [(''a.json'', Flat [\<lparr>s_sku = Some (Str ''09703''), s_name = Some (Str ''Old Name''),
                             s_hex = Some (Str ''#112233''),
                             s_url = Some (Str ''https://v.example/09703'')\<rparr>,
                           stored_entry ''70.950'' ''Black'' ''#000000'']),
         (''b.json'', Wrapper [(''range'', Str ''Model Color'')]
                        [stored_entry ''70.001'' ''White'' ''#FFFFFF'',
                         \<lparr>s_sku = Some (Str ''09703''), s_name = Some (Str ''Old name''),
                          s_hex = Some (Str ''#112233''),
                          s_url = Some (Str ''https://v.example/09703'')\<rparr>])],
      total_updated = 3, total_sku_updated = 2,
      reports = [(''a.json'', Some \<lparr>updated = 2, sku_changes = 1, not_found = []\<rparr>),
                 (''b.json'', Some \<lparr>updated = 1, sku_changes = 1,
                                      not_found = [Str ''70.001'']\<rparr>)]\<rparr> \<and>
   sum_list (map (\<lambda>(json_path, data).
       length (filter (has_renamed_match vallejo_normalize_sku vallejo_normalize_name renumbered_scrape)
                 (paints_of data))) renumbered_directory) = 2 \<and>
   renamed_match ak_normalize_sku ak_normalize_name
     [fresh_record ''Old Name'' ''AK 11703'' ''#112233'']
     (stored_entry ''AK11701'' ''Old Name'' [])
     (fresh_record ''Old Name'' ''AK 11703'' ''#112233'') \<and>
   total_sku_updated (ak_batch_update_json_files
     [(''b.json'', Flat [stored_entry ''AK11701'' ''Old Name'' []])]
     [fresh_record ''Old Name'' ''AK 11703'' ''#112233'']) = 1"
proof -
  let ?e = "stored_entry ''09701'' ''Old Name'' []"
  let ?m = "hd renumbered_scrape"
  let ?n = "fresh_record ''Old Name'' ''AK 11703'' ''#112233''"
  let ?f = "stored_entry ''AK11701'' ''Old Name'' []"
  have r: "renamed_match vallejo_normalize_sku vallejo_normalize_name renumbered_scrape ?e ?m"
    by code_simp
  have e: "renamed ?e ?m = \<lparr>s_sku = Some (Str ''09703''), s_name = Some (Str ''Old Name''),
                            s_hex = Some (Str ''#112233''),
                            s_url = Some (Str ''https://v.example/09703'')\<rparr>"
    by code_simp
  have n: "sum_list (map (\<lambda>(json_path, data).
       length (filter (has_renamed_match vallejo_normalize_sku vallejo_normalize_name renumbered_scrape)
                 (paints_of data))) renumbered_directory) = 2"
    by code_simp
  have r2: "renamed_match ak_normalize_sku ak_normalize_name [?n] ?f ?n"
    by code_simp
  note v = batch_merge_sku_rename [of renumbered_directory renumbered_scrape ?e ?m "''a.json''"]
  from r v have me: "merge_entry vallejo_normalize_sku vallejo_normalize_name
       (sku_lookup vallejo_normalize_sku vallejo_normalize_name renumbered_scrape)
       (name_lookup vallejo_normalize_sku vallejo_normalize_name renumbered_scrape) ?e =
     (renamed ?e ?m, True, True, None)"
    by blast
  have ev: "vallejo_batch_update_json_files renumbered_directory renumbered_scrape =
     \<lparr>files =
        [(''a.json'', Flat [\<lparr>s_sku = Some (Str ''09703''), s_name = Some (Str ''Old Name''),
                             s_hex = Some (Str ''#112233''),
                             s_url = Some (Str ''https://v.example/09703'')\<rparr>,
                           stored_entry ''70.950'' ''Black'' ''#000000'']),
         (''b.json'', Wrapper [(''range'', Str ''Model Color'')]
                        [stored_entry ''70.001'' ''White'' ''#FFFFFF'',
                         \<lparr>s_sku = Some (Str ''09703''), s_name = Some (Str ''Old name''),
                          s_hex = Some (Str ''#112233''),
                          s_url = Some (Str ''https://v.example/09703'')\<rparr>])],
      total_updated = 3, total_sku_updated = 2,
      reports = [(''a.json'', Some \<lparr>updated = 2, sku_changes = 1, not_found = []\<rparr>),
                 (''b.json'', Some \<lparr>updated = 1, sku_changes = 1,
                                      not_found = [Str ''70.001'']\<rparr>)]\<rparr>"
    by code_simp
  from r2 batch_merge_sku_rename [of _ "[?n]" ?f ?n "''b.json''"]
  have "ak_batch_update_json_files [(''b.json'', Flat [?f])] [?n] =
        \<lparr>files = [(''b.json'', Flat [renamed ?f ?n])], total_updated = 1, total_sku_updated = 1,
         reports = [(''b.json'', Some \<lparr>updated = 1, sku_changes = 1, not_found = []\<rparr>)]\<rparr>"
    by blast
  then have a: "total_sku_updated (ak_batch_update_json_files [(''b.json'', Flat [?f])] [?n]) = 1"
    by simp
  from me e have me': "merge_entry vallejo_normalize_sku vallejo_normalize_name
       (sku_lookup vallejo_normalize_sku vallejo_normalize_name renumbered_scrape)
       (name_lookup vallejo_normalize_sku vallejo_normalize_name renumbered_scrape) ?e =
     (\<lparr>s_sku = Some (Str ''09703''), s_name = Some (Str ''Old Name''),
       s_hex = Some (Str ''#112233''), s_url = Some (Str ''https://v.example/09703'')\<rparr>,
      True, True, None)"
    by simp
  from r me' ev n r2 a show ?thesis by (intro conjI)
qed


section \<open>The colour sampler: results and fallback\<close>



lemma those_None_iff: "those xs = None \<longleftrightarrow> None \<in> set xs"
  by (induction xs) (auto split: option.splits)

lemma those_Some_set: "those xs = Some ys \<Longrightarrow> set xs = Some ` set ys \<and> length ys = length xs"
  by (induction xs arbitrary: ys) (auto split: option.splits)

lemma offsets_nonempty: "offsets \<noteq> []"
  by (simp add: offsets_def)

lemma getpixel_clamped:
  assumes "0 < i_width img" "0 < i_height img"
  shows "getpixel img (max 0 (min a (int (i_width img) - 1)), max 0 (min b (int (i_height img) - 1))) =
         Some (i_pixel img (nat (max 0 (min a (int (i_width img) - 1))))
                           (nat (max 0 (min b (int (i_height img) - 1)))))"
  using assms by (auto simp: getpixel_def min_def max_def)

lemma region_colors_Some:
  assumes "0 < i_width img" "0 < i_height img"
  shows "\<exists>cs. region_colors img xy = Some cs \<and> cs \<noteq> [] \<and>
              (\<forall>c \<in> set cs. \<exists>x y. c = i_pixel img x y)"
proof -
  obtain x y where xy: "xy = (x, y)" by (cases xy)
  let ?l = "concat (map (\<lambda>dx. map (\<lambda>dy.
          let px = max 0 (min (x + dx) (int (i_width img) - 1));
              py = max 0 (min (y + dy) (int (i_height img) - 1))
          in getpixel img (px, py)) offsets) offsets)"
  have all: "\<forall>v \<in> set ?l. \<exists>a b. v = Some (i_pixel img a b)"
    using getpixel_clamped [OF assms] by (auto simp: Let_def)
  then have "None \<notin> set ?l" by (metis option.distinct(1))
  then obtain cs where cs: "those ?l = Some cs"
    using those_None_iff [of ?l] by (cases "those ?l") auto
  from those_Some_set [OF cs] have s: "set ?l = Some ` set cs" and l: "length cs = length ?l"
    by auto
  have "?l \<noteq> []" by (simp add: offsets_def)
  with l have "cs \<noteq> []" by auto
  moreover from s all have "\<forall>c \<in> set cs. \<exists>x y. c = i_pixel img x y"
    by (metis (no_types, lifting) image_eqI option.inject)
  ultimately show ?thesis using cs by (simp add: region_colors_def xy)
qed

lemma region_mean_Some:
  assumes "0 < i_width img" "0 < i_height img"
  shows "\<exists>c. region_mean img xy = Some c"
  using region_colors_Some [OF assms, of xy] by (auto simp: region_mean_def)

lemma pick_best_Some:
  assumes "0 < i_width img" "0 < i_height img"
  shows "\<exists>b. pick_best score img rs best s = Some b"
proof (induction rs arbitrary: best s)
  case Nil
  then show ?case by simp
next
  case (Cons xy rs)
  from region_mean_Some [OF assms, of xy] obtain c where "region_mean img xy = Some c" by auto
  with Cons show ?case by (cases "score c") auto
qed

lemma pick_best_gated:
  "all_gated score img rs \<Longrightarrow> pick_best score img rs best s = Some best"
  by (induction rs arbitrary: best s) (auto simp: all_gated_def split: option.splits)

lemma sample_with_Some:
  assumes "0 < i_width img" "0 < i_height img" "getpixel img fallback \<noteq> None"
  shows "\<exists>h. sample_with score img rs fallback = Some h"
proof -
  from pick_best_Some [OF assms(1,2)] obtain b where "pick_best score img rs None (- 1) = Some b"
    by blast
  with assms(3) show ?thesis by (cases b) (auto simp: sample_with_def)
qed

lemma sample_with_gated:
  assumes "all_gated score img rs"
  shows "sample_with score img rs fallback = map_option hex_color (getpixel img fallback)"
  using pick_best_gated [OF assms] by (simp add: sample_with_def)

lemma ak_fallback_in_range:
  assumes "0 < i_width img" "0 < i_height img"
  shows "getpixel img (int (i_width img) div 2, int (i_height img) div 4) =
         Some (i_pixel img (i_width img div 2) (i_height img div 4))"
proof -
  have "nat (int (i_width img) div 2) = i_width img div 2"
    "nat (int (i_height img) div 4) = i_height img div 4"
    by (simp_all add: nat_div_distrib)
  moreover have "int (i_width img) div 2 < int (i_width img)" "int (i_height img) div 4 < int (i_height img)"
    using assms by simp_all
  ultimately show ?thesis by (simp add: getpixel_def)
qed

lemma vallejo_fallback_in_range:
  assumes "0 < i_width img" "0 < i_height img"
  shows "getpixel img (floor_scale (i_width img) 12, floor_scale (i_height img) 50) =
         Some (i_pixel img (i_width img * 12 div 100) (i_height img * 50 div 100))"
proof -
  have "i_width img * 12 div 100 < i_width img" "i_height img * 50 div 100 < i_height img"
    using assms by arith+
  then show ?thesis by (simp add: getpixel_def floor_scale_def)
qed

lemma mean_bound:
  fixes xs :: "nat list"
  assumes "\<forall>v \<in> set xs. v < 256" "xs \<noteq> []"
  shows "sum_list xs div length xs < 256"
proof -
  have "sum_list xs \<le> 255 * length xs"
    using assms(1) by (induction xs) auto
  then have "sum_list xs div length xs \<le> 255 * length xs div length xs"
    by (rule div_le_mono)
  also have "\<dots> = 255" using assms(2) by simp
  finally show ?thesis by simp
qed

lemma region_mean_bound:
  assumes "rgb_image img" "region_mean img xy = Some (r, g, b)"
  shows "r < 256 \<and> g < 256 \<and> b < 256"
proof -
  from assms(1) have pos: "0 < i_width img" "0 < i_height img"
    and px: "\<And>x y. case i_pixel img x y of (r, g, b) \<Rightarrow> r < 256 \<and> g < 256 \<and> b < 256"
    by (auto simp: rgb_image_def)
  from region_colors_Some [OF pos, of xy] obtain cs
    where cs: "region_colors img xy = Some cs" "cs \<noteq> []"
      "\<forall>c \<in> set cs. \<exists>x y. c = i_pixel img x y" by auto
  have ch: "\<forall>c \<in> set cs. fst c < 256 \<and> fst (snd c) < 256 \<and> snd (snd c) < 256"
  proof
    fix c assume "c \<in> set cs"
    with cs(3) obtain x y where "c = i_pixel img x y" by auto
    with px [of x y] show "fst c < 256 \<and> fst (snd c) < 256 \<and> snd (snd c) < 256"
      by (cases c) auto
  qed
  have m: "map f cs \<noteq> []" "length (map f cs) = length cs" for f :: "rgb \<Rightarrow> nat"
    using cs(2) by simp_all
  from ch have "sum_list (map fst cs) div length (map fst cs) < 256"
    "sum_list (map (fst \<circ> snd) cs) div length (map (fst \<circ> snd) cs) < 256"
    "sum_list (map (snd \<circ> snd) cs) div length (map (snd \<circ> snd) cs) < 256"
    by (intro mean_bound; use cs(2) in auto)+
  with assms(2) cs(1) show ?thesis by (simp add: region_mean_def)
qed

lemma pick_best_origin:
  "pick_best score img rs best s = Some (Some c) \<Longrightarrow>
   best = Some c \<or> (\<exists>xy \<in> set rs. region_mean img xy = Some c)"
proof (induction rs arbitrary: best s)
  case Nil
  then show ?case by simp
next
  case (Cons xy rs)
  then show ?case
    by (fastforce split: option.splits if_splits)
qed

lemma hex_digit_member: "d < 16 \<Longrightarrow> hex_digit d \<in> set ''0123456789ABCDEF''"
  unfolding hex_digit_def by (rule nth_mem) simp

lemma hex02_form:
  assumes "n < 256"
  shows "length (hex02 n) = 2 \<and> list_all (\<lambda>c. c \<in> set ''0123456789ABCDEF'') (hex02 n)"
proof (cases "n < 16")
  case True
  then have "hex02 n = [CHR ''0'', hex_digit n]"
    by (simp add: hex02_def hex_digits.simps)
  with hex_digit_member [OF True] show ?thesis by simp
next
  case False
  with assms have d: "n div 16 < 16" "n mod 16 < 16" by simp_all
  with False have "hex02 n = [hex_digit (n div 16), hex_digit (n mod 16)]"
    by (simp add: hex02_def hex_digits.simps [of n] hex_digits.simps [of "n div 16"])
  with hex_digit_member [OF d(1)] hex_digit_member [OF d(2)] show ?thesis by simp
qed

lemma hex_color_form:
  assumes "r < 256" "g < 256" "b < 256"
  shows "is_hex_color (hex_color (r, g, b))"
  using hex02_form [OF assms(1)] hex02_form [OF assms(2)] hex02_form [OF assms(3)]
  by (simp add: is_hex_color_def hex_color_def)

lemma sample_with_hex:
  assumes img: "rgb_image img" and fb: "getpixel img fallback \<noteq> None"
  shows "\<exists>h. sample_with score img rs fallback = Some h \<and> is_hex_color h"
proof -
  from img have pos: "0 < i_width img" "0 < i_height img"
    and px: "\<And>x y. case i_pixel img x y of (r, g, b) \<Rightarrow> r < 256 \<and> g < 256 \<and> b < 256"
    by (auto simp: rgb_image_def)
  from pick_best_Some [OF pos] obtain b where b: "pick_best score img rs None (- 1) = Some b"
    by blast
  show ?thesis
  proof (cases b)
    case None
    from fb obtain c where c: "getpixel img fallback = Some c" by auto
    then obtain x y where "c = i_pixel img x y"
      by (cases fallback) (auto simp: getpixel_def split: if_splits)
    with px [of x y] have "is_hex_color (hex_color c)"
      by (cases c) (auto intro: hex_color_form)
    with b None c show ?thesis by (simp add: sample_with_def)
  next
    case (Some c)
    with b pick_best_origin [of score img rs None "- 1" c]
    obtain xy where "region_mean img xy = Some c" by auto
    with region_mean_bound [OF img, of xy] have "is_hex_color (hex_color c)"
      by (cases c) (auto intro: hex_color_form)
    with b Some show ?thesis by (simp add: sample_with_def)
  qed
qed





lemma those_replicate: "those (replicate n (Some c)) = Some (replicate n c)"
  by (induction n) simp_all

lemma region_mean_const:
  assumes pos: "0 < i_width img" "0 < i_height img"
    and px: "\<forall>dx \<in> set offsets. \<forall>dy \<in> set offsets.
        i_pixel img (nat (max 0 (min (x + dx) (int (i_width img) - 1))))
                    (nat (max 0 (min (y + dy) (int (i_height img) - 1)))) = c"
  shows "region_mean img (x, y) = Some c"
proof -
  let ?l = "concat (map (\<lambda>dx. map (\<lambda>dy.
          let px = max 0 (min (x + dx) (int (i_width img) - 1));
              py = max 0 (min (y + dy) (int (i_height img) - 1))
          in getpixel img (px, py)) offsets) offsets)"
  have "\<forall>v \<in> set ?l. v = Some c"
    using px getpixel_clamped [OF pos] by (auto simp: Let_def)
  then have "replicate (length ?l) (Some c) = ?l" by (rule replicate_length_same)
  moreover have "length ?l = 36" by (simp add: offsets_def)
  ultimately have "?l = replicate 36 (Some c)" by simp
  then have "region_colors img (x, y) = Some (replicate 36 c)"
    by (simp only: region_colors_def prod.case those_replicate)
  then show ?thesis
    by (cases c) (simp add: region_mean_def sum_list_replicate)
qed

lemma region_mean_uniform:
  "0 < w \<Longrightarrow> 0 < h \<Longrightarrow> region_mean (uniform_image w h c) (x, y) = Some c"
  by (rule region_mean_const) (simp_all add: uniform_image_def)

lemma gate_near_white: "score_with weight bonus (254, 254, 254) = None"
  by (simp add: score_with_def Let_def)

lemma dotted_region:
  "region_mean dotted_image (20, 8) = Some (254, 254, 254)"
  "region_mean dotted_image (13, 8) = Some (254, 254, 254)"
  "region_mean dotted_image (26, 8) = Some (254, 254, 254)"
  "region_mean dotted_image (20, 10) = Some (254, 254, 254)"
  "region_mean dotted_image (13, 10) = Some (254, 254, 254)"
  "region_mean dotted_image (26, 10) = Some (254, 254, 254)"
  "region_mean dotted_image (20, 13) = Some (254, 254, 254)"
  "region_mean dotted_image (13, 13) = Some (254, 254, 254)"
  "region_mean dotted_image (26, 13) = Some (254, 254, 254)"
  by (rule region_mean_const; simp add: dotted_image_def offsets_def)+

lemma dotted_regions:
  "ak_sample_regions dotted_image [] =
     [(20, 8), (13, 8), (26, 8), (20, 10), (13, 10), (26, 10), (20, 13), (13, 13), (26, 13)]"
  by (simp add: ak_sample_regions_def dotted_image_def)

lemma dotted_gated:
  "all_gated (score_with (1 / 2) 0) dotted_image (ak_sample_regions dotted_image [])"
  by (simp add: all_gated_def dotted_regions dotted_region gate_near_white)

lemma hex_254: "hex_color (254, 254, 254) = ''#FEFEFE''"
  by (simp add: hex_color_def hex02_def hex_digits.simps hex_digit_def)

lemma hex_255: "hex_color (255, 255, 255) = ''#FFFFFF''"
  by (simp add: hex_color_def hex02_def hex_digits.simps hex_digit_def)


text \<open>
  C4, as stated, fails in its second half: the fallback of AK's sampler is the raw pixel
  at the fixed point (width // 2, height // 4), not the first anchor of the layout. In a
  near-white bitmap whose pixel at the first anchor (20, 8) is \<open>#FFFFFF\<close>, every anchor is
  rejected by the gate and the result is the \<open>#FEFEFE\<close> of the pixel (20, 10).
\<close>

theorem sample_color_fallback_counterexample:
  "all_gated (score_with (1 / 2) 0) dotted_image (ak_sample_regions dotted_image []) \<and>
   ak_sample_color_from_image (Some dotted_image) [] = Some ''#FEFEFE'' \<and>
   hd (ak_sample_regions dotted_image []) = (20, 8) \<and>
   map_option hex_color (getpixel dotted_image (20, 8)) = Some ''#FFFFFF''"
proof -
  have "ak_sample_color_from_image (Some dotted_image) [] =
      map_option hex_color (getpixel dotted_image (int (i_width dotted_image) div 2,
                                                    int (i_height dotted_image) div 4))"
    using dotted_gated by (simp add: ak_sample_color_from_image_def sample_with_gated)
  also have "\<dots> = Some ''#FEFEFE''"
    by (simp add: dotted_image_def getpixel_def hex_254)
  finally have s: "ak_sample_color_from_image (Some dotted_image) [] = Some ''#FEFEFE''" .
  have p: "map_option hex_color (getpixel dotted_image (20, 8)) = Some ''#FFFFFF''"
    by (simp add: dotted_image_def getpixel_def hex_255)
  from dotted_gated s p show ?thesis by (simp add: dotted_regions)
qed

text \<open>
  C4, amended. A failed download or decoding gives \<open>None\<close>. For every decoded RGB bitmap
  both samplers return a hex string (\<open>#\<close> and six hexadecimal digits), never \<open>None\<close>. When
  every anchor of the layout is rejected by the brightness gate, AK's sampler returns the
  raw pixel at (width // 2, height // 4) and Vallejo's the raw pixel at
  (int(width * 0.12), int(height * 0.50)), which is a point of the bitmap.
\<close>

theorem sample_color_fallback:
  "ak_sample_color_from_image None range_hint = None \<and>
   vallejo_sample_color_from_image None = None \<and>
   (rgb_image img \<longrightarrow>
      (\<exists>h. ak_sample_color_from_image (Some img) range_hint = Some h \<and> is_hex_color h)) \<and>
   (rgb_image img \<and> all_gated (score_with (1 / 2) 0) img (ak_sample_regions img range_hint) \<longrightarrow>
      ak_sample_color_from_image (Some img) range_hint =
        Some (hex_color (i_pixel img (i_width img div 2) (i_height img div 4)))) \<and>
   (rgb_image img \<longrightarrow>
      (\<exists>h. vallejo_sample_color_from_image (Some img) = Some h \<and> is_hex_color h)) \<and>
   (rgb_image img \<and> all_gated (score_with (3 / 10) (1 / 10)) img (vallejo_sample_regions img) \<longrightarrow>
      vallejo_sample_color_from_image (Some img) =
        Some (hex_color (i_pixel img (i_width img * 12 div 100) (i_height img * 50 div 100))))"
proof (intro conjI impI)
  show "ak_sample_color_from_image None range_hint = None"
    by (simp add: ak_sample_color_from_image_def)
  show "vallejo_sample_color_from_image None = None"
    by (simp add: vallejo_sample_color_from_image_def)
next
  assume img: "rgb_image img"
  then have pos: "0 < i_width img" "0 < i_height img" by (simp_all add: rgb_image_def)
  from ak_fallback_in_range [OF pos]
  have "getpixel img (int (i_width img) div 2, int (i_height img) div 4) \<noteq> None" by simp
  from sample_with_hex [OF img this]
  show "\<exists>h. ak_sample_color_from_image (Some img) range_hint = Some h \<and> is_hex_color h"
    by (simp add: ak_sample_color_from_image_def)
next
  assume a: "rgb_image img \<and> all_gated (score_with (1 / 2) 0) img (ak_sample_regions img range_hint)"
  then have pos: "0 < i_width img" "0 < i_height img" by (simp_all add: rgb_image_def)
  from a sample_with_gated have "ak_sample_color_from_image (Some img) range_hint =
      map_option hex_color (getpixel img (int (i_width img) div 2, int (i_height img) div 4))"
    by (simp add: ak_sample_color_from_image_def)
  then show "ak_sample_color_from_image (Some img) range_hint =
        Some (hex_color (i_pixel img (i_width img div 2) (i_height img div 4)))"
    by (simp add: ak_fallback_in_range [OF pos])
next
  assume img: "rgb_image img"
  then have pos: "0 < i_width img" "0 < i_height img" by (simp_all add: rgb_image_def)
  from vallejo_fallback_in_range [OF pos]
  have "getpixel img (floor_scale (i_width img) 12, floor_scale (i_height img) 50) \<noteq> None"
    by simp
  from sample_with_hex [OF img this]
  show "\<exists>h. vallejo_sample_color_from_image (Some img) = Some h \<and> is_hex_color h"
    by (simp add: vallejo_sample_color_from_image_def)
next
  assume a: "rgb_image img \<and>
    all_gated (score_with (3 / 10) (1 / 10)) img (vallejo_sample_regions img)"
  then have pos: "0 < i_width img" "0 < i_height img" by (simp_all add: rgb_image_def)
  from a sample_with_gated have "vallejo_sample_color_from_image (Some img) =
      map_option hex_color (getpixel img (floor_scale (i_width img) 12, floor_scale (i_height img) 50))"
    by (simp add: vallejo_sample_color_from_image_def)
  then show "vallejo_sample_color_from_image (Some img) =
        Some (hex_color (i_pixel img (i_width img * 12 div 100) (i_height img * 50 div 100)))"
    by (simp add: vallejo_fallback_in_range [OF pos])
qed


text \<open>
  Instances: a bitmap that is \<open>#FEFEFE\<close> everywhere is gated at every anchor and sampled as
  \<open>#FEFEFE\<close> by both modules; a red bitmap gives a hex string in both.
\<close>

theorem sample_color_fallback_witness:
  "rgb_image (uniform_image 100 100 (254, 254, 254)) \<and>
   all_gated (score_with (1 / 2) 0) (uniform_image 100 100 (254, 254, 254))
     (ak_sample_regions (uniform_image 100 100 (254, 254, 254)) []) \<and>
   ak_sample_color_from_image (Some (uniform_image 100 100 (254, 254, 254))) [] = Some ''#FEFEFE'' \<and>
   all_gated (score_with (3 / 10) (1 / 10)) (uniform_image 100 100 (254, 254, 254))
     (vallejo_sample_regions (uniform_image 100 100 (254, 254, 254))) \<and>
   vallejo_sample_color_from_image (Some (uniform_image 100 100 (254, 254, 254))) =
     Some ''#FEFEFE'' \<and>
   rgb_image (uniform_image 100 100 (200, 30, 40)) \<and>
   (\<exists>h. ak_sample_color_from_image (Some (uniform_image 100 100 (200, 30, 40))) ''deep-shades'' =
          Some h \<and> is_hex_color h) \<and>
   (\<exists>h. vallejo_sample_color_from_image (Some (uniform_image 100 100 (200, 30, 40))) =
          Some h \<and> is_hex_color h)"
proof -
  let ?u = "uniform_image 100 100 (254, 254, 254)"
  let ?c = "uniform_image 100 100 (200, 30, 40)"
  have r: "rgb_image ?u" "rgb_image ?c" by (simp_all add: rgb_image_def uniform_image_def)
  have g: "all_gated (score_with (1 / 2) 0) ?u (ak_sample_regions ?u [])"
    by (simp add: all_gated_def ak_sample_regions_def list_all_iff region_mean_uniform
        gate_near_white split_paired_all)
  have gv: "all_gated (score_with (3 / 10) (1 / 10)) ?u (vallejo_sample_regions ?u)"
    by (simp add: all_gated_def vallejo_sample_regions_def list_all_iff region_mean_uniform
        gate_near_white split_paired_all)
  have h: "hex_color (i_pixel ?u (i_width ?u div 2) (i_height ?u div 4)) = ''#FEFEFE''"
    by (simp add: uniform_image_def hex_254)
  have hv: "hex_color (i_pixel ?u (i_width ?u * 12 div 100) (i_height ?u * 50 div 100)) =
      ''#FEFEFE''"
    by (simp add: uniform_image_def hex_254)
  from r(1) g sample_color_fallback [of "[]" ?u]
  have a: "ak_sample_color_from_image (Some ?u) [] =
        Some (hex_color (i_pixel ?u (i_width ?u div 2) (i_height ?u div 4)))" by blast
  from r(1) gv sample_color_fallback [of "[]" ?u]
  have v: "vallejo_sample_color_from_image (Some ?u) =
        Some (hex_color (i_pixel ?u (i_width ?u * 12 div 100) (i_height ?u * 50 div 100)))"
    by blast
  from r(2) sample_color_fallback [of "''deep-shades''" ?c]
  have c: "\<exists>h. ak_sample_color_from_image (Some ?c) ''deep-shades'' = Some h \<and> is_hex_color h"
    by blast
  from r(2) sample_color_fallback [of "''deep-shades''" ?c]
  have cv: "\<exists>h. vallejo_sample_color_from_image (Some ?c) = Some h \<and> is_hex_color h"
    by blast
  from r g gv a v h hv c cv show ?thesis by simp
qed

section \<open>Colour extraction from vector graphics: the result\<close>


lemma count_color_map_of:
  "map_of (count_color c cs) =
     (map_of cs)(c \<mapsto> (case map_of cs c of None \<Rightarrow> 1 | Some n \<Rightarrow> n + 1))"
  by (induction cs) (auto simp: fun_eq_iff)

lemma count_color_keys: "fst ` set (count_color c cs) = insert c (fst ` set cs)"
proof (induction cs)
  case Nil
  then show ?case by simp
next
  case (Cons kn cs)
  obtain k n where kn: "kn = (k, n)" by (cases kn)
  show ?case
  proof (cases "k = c")
    case True
    then show ?thesis by (simp add: kn insert_absorb)
  next
    case False
    then show ?thesis by (simp add: kn Cons.IH insert_commute)
  qed
qed

lemma count_color_distinct: "distinct (map fst cs) \<Longrightarrow> distinct (map fst (count_color c cs))"
proof (induction cs)
  case Nil
  then show ?case by simp
next
  case (Cons kn cs)
  obtain k n where kn: "kn = (k, n)" by (cases kn)
  show ?case
  proof (cases "k = c")
    case True
    with Cons.prems show ?thesis by (simp add: kn)
  next
    case False
    with Cons.prems have "k \<notin> fst ` set (count_color c cs)"
      by (simp add: kn count_color_keys)
    with Cons False show ?thesis by (simp add: kn)
  qed
qed

lemma counter_fold_distinct:
  "distinct (map fst acc) \<Longrightarrow>
   distinct (map fst (foldl (\<lambda>counts color. count_color color counts) acc xs))"
  by (induction xs arbitrary: acc) (simp_all add: count_color_distinct)

lemma counter_fold_keys:
  "fst ` set (foldl (\<lambda>counts color. count_color color counts) acc xs) = fst ` set acc \<union> set xs"
  by (induction xs arbitrary: acc) (simp_all add: count_color_keys)

lemma counter_fold_map_of:
  "map_of (foldl (\<lambda>counts color. count_color color counts) acc xs) k =
     (case map_of acc k of
        None \<Rightarrow> if k \<in> set xs then Some (count_list xs k) else None
      | Some n \<Rightarrow> Some (n + count_list xs k))"
proof (induction xs arbitrary: acc)
  case Nil
  then show ?case by (simp split: option.splits)
next
  case (Cons x xs)
  show ?case
    by (simp add: Cons.IH count_color_map_of split: option.splits)
qed

lemma Counter_facts:
  "distinct (map fst (Counter xs))"
  "fst ` set (Counter xs) = set xs"
  "(c, n) \<in> set (Counter xs) \<Longrightarrow> c \<in> set xs \<and> n = count_list xs c"
proof -
  show d: "distinct (map fst (Counter xs))"
    unfolding Counter_def by (rule counter_fold_distinct) simp
  show s: "fst ` set (Counter xs) = set xs"
    unfolding Counter_def by (simp add: counter_fold_keys)
  assume m: "(c, n) \<in> set (Counter xs)"
  with d have "map_of (Counter xs) c = Some n" by simp
  moreover from m s have "c \<in> set xs" by force
  moreover have "map_of (Counter xs) c =
      (if c \<in> set xs then Some (count_list xs c) else None)"
    unfolding Counter_def by (simp add: counter_fold_map_of)
  ultimately show "c \<in> set xs \<and> n = count_list xs c" by simp
qed

lemma most_common_set: "set (most_common cs) = set cs"
  by (simp add: most_common_def)

lemma most_common_head:
  assumes "filter P (most_common cs) = (c, n) # rest" "(d, k) \<in> set cs" "P (d, k)"
  shows "k \<le> n"
proof -
  let ?key = "\<lambda>(color, n :: nat). - int n"
  have "sorted (map ?key (most_common cs))"
    unfolding most_common_def by (rule sorted_sort_key)
  then have "sorted (map ?key (filter P (most_common cs)))" by (rule sorted_filter)
  with assms(1) have "\<forall>y \<in> set rest. ?key (c, n) \<le> ?key y" by simp
  moreover from assms(2,3) have "(d, k) \<in> set (filter P (most_common cs))"
    by (simp add: most_common_set)
  ultimately have "?key (c, n) \<le> ?key (d, k)" using assms(1) by auto
  then show ?thesis by simp
qed

lemma extract_no_pot:
  assumes "search_pot svg = None"
  shows "extract_hex_from_svg svg =
     (if svg_colors svg = [] then None
      else case filter (\<lambda>(color, n). color \<notin> set ignore_colors)
                  (most_common (Counter (svg_colors svg))) of
             (color, n) # rest \<Rightarrow> Some (''#'' @ color)
           | [] \<Rightarrow>
               (case most_common (Counter (svg_colors svg)) of
                  (color, n) # rest \<Rightarrow> Some (''#'' @ color)
                | [] \<Rightarrow> None))"
  unfolding extract_hex_from_svg_def svg_colors_def Let_def assms
  by (cases "findall rect_fill_at svg = []") simp_all

lemma starts_with_take: "starts_with s n \<longleftrightarrow> take (length n) s = n"
  by (induction s n rule: starts_with.induct) auto

lemma starts_with_iff: "starts_with s n \<longleftrightarrow> (\<exists>r. s = n @ r)"
proof
  assume "starts_with s n"
  then have "take (length n) s = n" by (simp add: starts_with_take)
  then have "s = n @ drop (length n) s" by (metis append_take_drop_id)
  then show "\<exists>r. s = n @ r" ..
next
  assume "\<exists>r. s = n @ r"
  then show "starts_with s n" by (auto simp: starts_with_take)
qed

lemma contains_iff: "contains sub s \<longleftrightarrow> (\<exists>a b. s = a @ sub @ b)"
proof (induction s)
  case Nil
  then show ?case by auto
next
  case (Cons c cs)
  have "(\<exists>a b. c # cs = a @ sub @ b) \<longleftrightarrow> (\<exists>b. c # cs = sub @ b) \<or> (\<exists>a b. cs = a @ sub @ b)"
  proof
    assume "\<exists>a b. c # cs = a @ sub @ b"
    then obtain a b where ab: "c # cs = a @ sub @ b" by auto
    show "(\<exists>b. c # cs = sub @ b) \<or> (\<exists>a b. cs = a @ sub @ b)"
    proof (cases a)
      case Nil
      with ab show ?thesis by auto
    next
      case (Cons x xs)
      with ab have "cs = xs @ sub @ b" by simp
      then show ?thesis by blast
    qed
  next
    assume "(\<exists>b. c # cs = sub @ b) \<or> (\<exists>a b. cs = a @ sub @ b)"
    then show "\<exists>a b. c # cs = a @ sub @ b"
    proof
      assume "\<exists>b. c # cs = sub @ b"
      then obtain b where "c # cs = [] @ sub @ b" by auto
      then show ?thesis by blast
    next
      assume "\<exists>a b. cs = a @ sub @ b"
      then obtain a b where "c # cs = (c # a) @ sub @ b" by auto
      then show ?thesis by blast
    qed
  qed
  with Cons show ?case by (simp add: starts_with_iff)
qed

lemma no_overlap:
  assumes q: "starts_with (q @ s) n" and s: "starts_with s n"
    and n: "n \<noteq> []" "hd n \<notin> set (tl n)"
  shows "q = [] \<or> contains n q"
proof -
  from q obtain r where r: "q @ s = n @ r" by (auto simp: starts_with_iff)
  from s obtain r' where r': "s = n @ r'" by (auto simp: starts_with_iff)
  from r consider u where "q = n @ u" | u where "q @ u = n" "s = u @ r"
    by (auto simp: append_eq_append_conv2)
  then show ?thesis
  proof cases
    case 1
    then have "q = [] @ n @ u" by simp
    then show ?thesis unfolding contains_iff by blast
  next
    case 2
    show ?thesis
    proof (cases "q = [] \<or> u = []")
      case True
      then show ?thesis
      proof
        assume "q = []" then show ?thesis by simp
      next
        assume "u = []"
        with 2 have "q = [] @ n @ []" by simp
        then show ?thesis unfolding contains_iff by blast
      qed
    next
      case False
      then have qn: "q \<noteq> []" and un: "u \<noteq> []" by auto
      from 2(2) r' have "u @ r = n @ r'" by simp
      with un n(1) have "hd u = hd n" by (cases u; cases n) auto
      moreover from 2(1) qn have "set u \<subseteq> set (tl n)" by (cases q) auto
      ultimately have "hd n \<in> set (tl n)" using un by (metis hd_in_set subsetD)
      with n(2) show ?thesis by simp
    qed
  qed
qed

lemma pot_at_None: "\<not> starts_with x ''clip-path'' \<Longrightarrow> pot_at x = None"
proof -
  assume a: "\<not> starts_with x ''clip-path''"
  have p: \<open>\<not> starts_with x ''clip-path="url(#pot)"''\<close>
  proof
    assume \<open>starts_with x ''clip-path="url(#pot)"''\<close>
    then obtain r where \<open>x = ''clip-path="url(#pot)"'' @ r\<close> by (auto simp: starts_with_iff)
    with a show False by simp
  qed
  have s: \<open>\<not> starts_with x ''clip-path="url(#spray)"''\<close>
  proof
    assume \<open>starts_with x ''clip-path="url(#spray)"''\<close>
    then obtain r where \<open>x = ''clip-path="url(#spray)"'' @ r\<close> by (auto simp: starts_with_iff)
    with a show False by simp
  qed
  from p s show ?thesis by (simp add: pot_at_def)
qed

lemma rect_fill_at_None: "\<not> starts_with x ''<rect'' \<Longrightarrow> rect_fill_at x = None"
  by (simp add: rect_fill_at_def)

lemma fill_here_None: "\<not> starts_with x ''fill='' \<Longrightarrow> fill_here x = None"
proof -
  assume a: "\<not> starts_with x ''fill=''"
  have \<open>\<not> starts_with x ''fill="#''\<close>
  proof
    assume \<open>starts_with x ''fill="#''\<close>
    then obtain r where \<open>x = ''fill="#'' @ r\<close> by (auto simp: starts_with_iff)
    with a show False by simp
  qed
  then show ?thesis by (simp add: fill_here_def)
qed

lemma search_pot_skip:
  assumes "\<not> contains ''clip-path'' pre" "starts_with s ''clip-path''"
  shows "search_pot (pre @ s) = search_pot s"
  using assms(1)
proof (induction pre)
  case Nil
  then show ?case by simp
next
  case (Cons c p)
  then have np: "\<not> contains ''clip-path'' p" and nc: "\<not> contains ''clip-path'' (c # p)" by auto
  have "\<not> starts_with ((c # p) @ s) ''clip-path''"
  proof
    assume "starts_with ((c # p) @ s) ''clip-path''"
    from no_overlap [OF this assms(2)] have "c # p = [] \<or> contains ''clip-path'' (c # p)" by simp
    with nc show False by simp
  qed
  then have "pot_at ((c # p) @ s) = None" by (rule pot_at_None)
  with Cons.IH [OF np] show ?case by simp
qed

lemma search_pot_absent:
  \<open>\<not> contains ''clip-path="url(#pot)"'' svg \<Longrightarrow> \<not> contains ''clip-path="url(#spray)"'' svg \<Longrightarrow>
   search_pot svg = None\<close>
proof (induction svg)
  case Nil
  then show ?case by simp
next
  case (Cons c cs)
  let ?x = "c # cs"
  have step: "contains n (c # cs) = (starts_with (c # cs) n \<or> contains n cs)" for n
    by (rule contains.simps(2))
  from Cons.prems step have st: \<open>\<not> starts_with ?x ''clip-path="url(#pot)"''\<close>
    \<open>\<not> starts_with ?x ''clip-path="url(#spray)"''\<close>
    and rest: \<open>\<not> contains ''clip-path="url(#pot)"'' cs\<close> \<open>\<not> contains ''clip-path="url(#spray)"'' cs\<close>
    by blast+
  have "pot_at x = None" if \<open>\<not> starts_with x ''clip-path="url(#pot)"''\<close>
    \<open>\<not> starts_with x ''clip-path="url(#spray)"''\<close> for x
    using that by (simp add: pot_at_def)
  from this [OF st] Cons.IH [OF rest] show ?case by simp
qed

lemma pot_at_clip:
  assumes \<open>clip = ''clip-path="url(#pot)"'' \<or> clip = ''clip-path="url(#spray)"''\<close>
    and "CHR ''>'' \<notin> set tag"
  shows "pot_at (clip @ tag @ ''>'' @ body) = first_rect_fill body"
proof -
  have d: "dropWhile (\<lambda>c. c \<noteq> CHR ''>'') (tag @ CHR ''>'' # body) = CHR ''>'' # body"
    using assms(2) by (induction tag) auto
  from assms(1) show ?thesis
  proof
    assume \<open>clip = ''clip-path="url(#pot)"''\<close>
    then show ?thesis by (simp add: pot_at_def d)
  next
    assume \<open>clip = ''clip-path="url(#spray)"''\<close>
    then show ?thesis by (simp add: pot_at_def d)
  qed
qed

lemma first_rect_fill_skip:
  assumes "\<not> contains ''<rect'' mid" "starts_with s ''<rect''"
  shows "first_rect_fill (mid @ s) = first_rect_fill s"
  using assms(1)
proof (induction mid)
  case Nil
  then show ?case by simp
next
  case (Cons c m)
  then have nm: "\<not> contains ''<rect'' m" and nc: "\<not> contains ''<rect'' (c # m)" by auto
  have "\<not> starts_with ((c # m) @ s) ''<rect''"
  proof
    assume "starts_with ((c # m) @ s) ''<rect''"
    from no_overlap [OF this assms(2)] have "c # m = [] \<or> contains ''<rect'' (c # m)" by simp
    with nc show False by simp
  qed
  then have "rect_fill_at ((c # m) @ s) = None" by (rule rect_fill_at_None)
  with Cons.IH [OF nm] show ?case by simp
qed

lemma starts_with_takeWhile:
  "starts_with s n \<Longrightarrow> x \<notin> set n \<Longrightarrow> starts_with (takeWhile (\<lambda>c. c \<noteq> x) s) n"
  by (induction s n rule: starts_with.induct) auto

lemma last_fill_none:
  "\<not> contains ''fill='' (takeWhile (\<lambda>c. c \<noteq> CHR ''>'') s) \<Longrightarrow> last_fill s = None"
proof (induction s)
  case Nil
  then show ?case by simp
next
  case (Cons c cs)
  show ?case
  proof (cases "c = CHR ''>''")
    case True
    then show ?thesis by simp
  next
    case False
    let ?t = "takeWhile (\<lambda>c. c \<noteq> CHR ''>'')"
    from False have t: "?t (c # cs) = c # ?t cs" by simp
    have step: "contains n (c # ?t cs) = (starts_with (c # ?t cs) n \<or> contains n (?t cs))" for n
      by (rule contains.simps(2))
    from Cons.prems step have ns: "\<not> starts_with (?t (c # cs)) ''fill=''"
      and nc: "\<not> contains ''fill='' (?t cs)"
      unfolding t by blast+
    have "\<not> starts_with (c # cs) ''fill=''"
    proof
      assume "starts_with (c # cs) ''fill=''"
      then have "starts_with (?t (c # cs)) ''fill=''"
        by (rule starts_with_takeWhile) simp
      with ns show False by simp
    qed
    then have "fill_here (c # cs) = None" by (rule fill_here_None)
    with Cons.IH [OF nc] False show ?thesis by simp
  qed
qed

lemma is_hex_chars: "is_hex c \<Longrightarrow> c \<noteq> CHR ''>'' \<and> c \<noteq> CHR ''i''"
  by (auto simp: is_hex_def is_digit_def)

lemma contains_fill_digits:
  \<open>list_all is_hex ds \<Longrightarrow> contains ''fill='' (ds @ CHR 0x22 # t) = contains ''fill='' t\<close>
proof (induction ds)
  case Nil
  then show ?case by simp
next
  case (Cons d ds)
  then have ih: \<open>contains ''fill='' (ds @ CHR 0x22 # t) = contains ''fill='' t\<close> by simp
  have \<open>\<not> starts_with (d # ds @ CHR 0x22 # t) ''fill=''\<close>
  proof (cases ds)
    case Nil
    then show ?thesis by simp
  next
    case (Cons e es)
    with Cons.prems have "is_hex e" by simp
    then have "e \<noteq> CHR ''i''" by (simp add: is_hex_chars)
    with Cons show ?thesis by simp
  qed
  with ih show ?case by auto
qed

lemma last_fill_here:
  assumes "length ds = 6" "list_all is_hex ds"
    and "\<not> contains ''fill='' (takeWhile (\<lambda>c. c \<noteq> CHR ''>'') rest)"
  shows \<open>last_fill (''fill="'' @ (CHR ''#'' # ds) @ ''"'' @ rest) = Some (CHR ''#'' # ds, 14)\<close>
proof -
  let ?P = "\<lambda>c. c \<noteq> CHR ''>''"
  have tw: \<open>takeWhile ?P (ds @ CHR 0x22 # rest) = ds @ CHR 0x22 # takeWhile ?P rest\<close>
    using assms(2) by (simp add: takeWhile_append2 list_all_iff is_hex_chars)
  have \<open>\<not> contains ''fill='' (takeWhile ?P (''ill="#'' @ ds @ CHR 0x22 # rest))\<close>
    using assms(2,3) by (simp add: tw contains_fill_digits)
  then have n: \<open>last_fill (''ill="#'' @ ds @ CHR 0x22 # rest) = None\<close>
    by (rule last_fill_none)
  have h: \<open>fill_here (''fill="#'' @ ds @ CHR 0x22 # rest) = Some (CHR ''#'' # ds)\<close>
    using assms(1,2) by (simp add: fill_here_def nth_append)
  from n h show ?thesis by simp
qed

lemma last_fill_attrs:
  assumes "CHR ''>'' \<notin> set attrs" "last_fill s = Some (color, n)"
  shows "last_fill (attrs @ s) = Some (color, length attrs + n)"
  using assms(1) by (induction attrs) (auto simp: assms(2))

lemma search_pot_found:
  assumes svg: \<open>svg = pre @ clip @ tag @ ''>'' @ mid @ ''<rect'' @ attrs @ ''fill="'' @ color @ ''"'' @ rest\<close>
    and clip: \<open>clip = ''clip-path="url(#pot)"'' \<or> clip = ''clip-path="url(#spray)"''\<close>
    and pre: "\<not> contains ''clip-path'' pre"
    and tag: "CHR ''>'' \<notin> set tag"
    and mid: "\<not> contains ''<rect'' mid"
    and attrs: "CHR ''>'' \<notin> set attrs"
    and color: "color = CHR ''#'' # digits" "length digits = 6" "list_all is_hex digits"
    and rest: "\<not> contains ''fill='' (takeWhile (\<lambda>c. c \<noteq> CHR ''>'') rest)"
  shows "search_pot svg = Some color"
proof -
  let ?F = \<open>''fill="'' @ color @ ''"'' @ rest\<close>
  let ?R = "''<rect'' @ attrs @ ?F"
  let ?S = "clip @ tag @ ''>'' @ mid @ ?R"
  have lf: "last_fill ?F = Some (color, 14)"
    unfolding color(1) by (rule last_fill_here [OF color(2,3) rest])
  from last_fill_attrs [OF attrs lf]
  have "rect_fill_at ?R = Some (color, 5 + (length attrs + 14))"
    by (simp add: rect_fill_at_def)
  then have "first_rect_fill ?R = Some color" by simp
  moreover have "first_rect_fill (mid @ ?R) = first_rect_fill ?R"
    by (rule first_rect_fill_skip [OF mid]) simp
  ultimately have "pot_at ?S = Some color"
    using pot_at_clip [OF clip tag, of "mid @ ?R"] by simp
  moreover from clip obtain c cs where cs: "?S = c # cs" by (cases ?S) auto
  ultimately have "search_pot ?S = Some color" by simp
  moreover from clip have "starts_with ?S ''clip-path''" by auto
  from search_pot_skip [OF pre this] have "search_pot svg = search_pot ?S" by (simp add: svg)
  ultimately show ?thesis by simp
qed


lemma count_color_fst:
  "map fst (count_color x acc) =
     (if x \<in> fst ` set acc then map fst acc else map fst acc @ [x])"
proof (induction acc)
  case Nil
  then show ?case by simp
next
  case (Cons kn acc)
  obtain k n where kn: "kn = (k, n)" by (cases kn)
  show ?case
  proof (cases "k = x")
    case True
    then show ?thesis by (simp add: kn)
  next
    case False
    then show ?thesis using Cons by (simp add: kn)
  qed
qed

lemma find_append_case:
  "find P (xs @ ys) = (case find P xs of None \<Rightarrow> find P ys | Some x \<Rightarrow> Some x)"
  by (induction xs) simp_all

lemma find_map_fst: "find R (map f xs) = map_option f (find (\<lambda>x. R (f x)) xs)"
  by (induction xs) simp_all

lemma find_filter_head: "filter P xs = x # r \<Longrightarrow> find P xs = Some x"
  by (induction xs) (auto split: if_splits)

lemma counter_fold_find:
  "find R (map fst (foldl (\<lambda>counts color. count_color color counts) acc xs)) =
     (case find R (map fst acc) of Some c \<Rightarrow> Some c | None \<Rightarrow> find R xs)"
proof (induction xs arbitrary: acc)
  case Nil
  then show ?case by (simp split: option.splits)
next
  case (Cons x xs)
  show ?case
  proof (cases "x \<in> fst ` set acc")
    case True
    then have m: "map fst (count_color x acc) = map fst acc" by (simp add: count_color_fst)
    have "\<not> R x" if "find R (map fst acc) = None"
      using that True by (auto simp: find_None_iff)
    then show ?thesis by (auto simp: Cons.IH m split: option.splits)
  next
    case False
    then have m: "map fst (count_color x acc) = map fst acc @ [x]" by (simp add: count_color_fst)
    show ?thesis by (simp add: Cons.IH m find_append_case split: option.splits)
  qed
qed

lemma Counter_find: "find R (map fst (Counter xs)) = find R xs"
  unfolding Counter_def by (simp add: counter_fold_find)

lemma first_pick:
  assumes nz: "\<exists>d \<in> set xs. Q d"
  shows "\<exists>c n rest. filter (\<lambda>(color, n). Q color) (most_common (Counter xs)) = (c, n) # rest \<and>
           first_most_frequent xs Q = Some c"
proof -
  let ?P = "\<lambda>(color, n :: nat). Q color"
  let ?key = "\<lambda>(color, n :: nat). - int n"
  let ?L = "Counter xs"
  let ?M = "most_common ?L"
  from nz obtain d where d: "d \<in> set xs" "Q d" by auto
  then obtain k where "(d, k) \<in> set ?L"
    using Counter_facts(2) [of xs] by force
  with d(2) have "(d, k) \<in> set (filter ?P ?M)" by (simp add: most_common_set)
  then obtain c n rest where l: "filter ?P ?M = (c, n) # rest" by (cases "filter ?P ?M") auto
  then have "(c, n) \<in> set (filter ?P ?M)" by simp
  then have cn: "(c, n) \<in> set ?L" "Q c" by (auto simp: most_common_set)
  from Counter_facts(3) [OF cn(1)] have c: "c \<in> set xs" "n = count_list xs c" by auto
  have mx: "count_list xs e \<le> n" if e: "e \<in> set xs" "Q e" for e
  proof -
    from e(1) obtain j where j: "(e, j) \<in> set ?L"
      using Counter_facts(2) [of xs] by force
    from Counter_facts(3) [OF j] have "j = count_list xs e" by simp
    moreover from most_common_head [of ?P, OF l j] e(2) have "j \<le> n" by simp
    ultimately show ?thesis by simp
  qed
  let ?K = "\<lambda>y. ?key y = ?key (c, n)"
  have "filter ?K ?M = filter ?K ?L"
    unfolding most_common_def by (rule sort_key_stable)
  then have "filter ?P (filter ?K ?M) = filter ?P (filter ?K ?L)" by simp
  moreover have "filter ?P (filter ?K ?M) = filter ?K (filter ?P ?M)"
    by (simp add: conj_commute)
  moreover have "filter ?K (filter ?P ?M) = (c, n) # filter ?K rest"
    by (simp add: l)
  ultimately have "filter (\<lambda>y. ?K y \<and> ?P y) ?L = (c, n) # filter ?K rest" by simp
  then have f1: "find (\<lambda>y. ?K y \<and> ?P y) ?L = Some (c, n)" by (rule find_filter_head)
  let ?G = "\<lambda>d. Q d \<and> count_list xs d = n"
  have "find (\<lambda>y. ?G (fst y)) ?L = find (\<lambda>y. ?K y \<and> ?P y) ?L"
  proof (rule find_cong [OF refl])
    fix y assume "y \<in> set ?L"
    then have "snd y = count_list xs (fst y)"
      using Counter_facts(3) [of "fst y" "snd y" xs] by simp
    then show "?G (fst y) = (?K y \<and> ?P y)" by (cases y) auto
  qed
  with f1 have "find ?G (map fst ?L) = Some c" by (simp add: find_map_fst)
  then have f2: "find ?G xs = Some c" by (simp add: Counter_find)
  have "first_most_frequent xs Q = find ?G xs"
    unfolding first_most_frequent_def
  proof (rule find_cong [OF refl])
    fix e assume e: "e \<in> set xs"
    show "(Q e \<and> list_all (\<lambda>d. Q d \<longrightarrow> count_list xs d \<le> count_list xs e) xs) = ?G e"
    proof
      assume a: "Q e \<and> list_all (\<lambda>d. Q d \<longrightarrow> count_list xs d \<le> count_list xs e) xs"
      with c cn(2) have "n \<le> count_list xs e" by (auto simp: list_all_iff)
      moreover from a e have "count_list xs e \<le> n" by (simp add: mx)
      ultimately show "?G e" using a by simp
    next
      assume "?G e"
      then show "Q e \<and> list_all (\<lambda>d. Q d \<longrightarrow> count_list xs d \<le> count_list xs e) xs"
        using mx by (auto simp: list_all_iff)
    qed
  qed
  with f2 l show ?thesis by simp
qed

lemma first_none:
  assumes "\<forall>d \<in> set xs. \<not> Q d"
  shows "filter (\<lambda>(color, n). Q color) (most_common (Counter xs)) = []"
    and "first_most_frequent xs Q = None"
proof -
  have "fst ` set (most_common (Counter xs)) = set xs"
    by (simp add: most_common_set Counter_facts(2))
  with assms show "filter (\<lambda>(color, n). Q color) (most_common (Counter xs)) = []"
    by (force simp: filter_empty_conv)
  from assms show "first_most_frequent xs Q = None"
    by (auto simp: first_most_frequent_def find_None_iff)
qed

lemma extract_counted:
  assumes np: "search_pot svg = None"
  shows "extract_hex_from_svg svg =
     (case first_most_frequent (svg_colors svg) (\<lambda>d. d \<notin> set ignore_colors) of
        Some c \<Rightarrow> Some (''#'' @ c)
      | None \<Rightarrow> map_option (\<lambda>c. ''#'' @ c) (first_most_frequent (svg_colors svg) (\<lambda>d. True)))"
proof (cases "\<exists>d \<in> set (svg_colors svg). d \<notin> set ignore_colors")
  case True
  then have ne: "svg_colors svg \<noteq> []" by auto
  from first_pick [of "svg_colors svg" "\<lambda>d. d \<notin> set ignore_colors", OF True]
  obtain c n rest where
    "filter (\<lambda>(color, n). color \<notin> set ignore_colors) (most_common (Counter (svg_colors svg))) =
       (c, n) # rest"
    and "first_most_frequent (svg_colors svg) (\<lambda>d. d \<notin> set ignore_colors) = Some c" by blast
  with ne show ?thesis by (simp add: extract_no_pot [OF np])
next
  case False
  then have all: "\<forall>d \<in> set (svg_colors svg). \<not> d \<notin> set ignore_colors" by simp
  note none = first_none [of "svg_colors svg" "\<lambda>d. d \<notin> set ignore_colors", OF all]
  show ?thesis
  proof (cases "svg_colors svg = []")
    case True
    then show ?thesis
      by (simp add: extract_no_pot [OF np] none first_most_frequent_def)
  next
    case ne: False
    then have "\<exists>d \<in> set (svg_colors svg). True" by (cases "svg_colors svg") auto
    from first_pick [of "svg_colors svg" "\<lambda>d. True", OF this]
    obtain c n rest where m: "most_common (Counter (svg_colors svg)) = (c, n) # rest"
      and f: "first_most_frequent (svg_colors svg) (\<lambda>d. True) = Some c" by auto
    from ne have e: "extract_hex_from_svg svg =
       (case filter (\<lambda>(color, n). color \<notin> set ignore_colors)
               (most_common (Counter (svg_colors svg))) of
          (color, n) # rest \<Rightarrow> Some (''#'' @ color)
        | [] \<Rightarrow>
            (case most_common (Counter (svg_colors svg)) of
               (color, n) # rest \<Rightarrow> Some (''#'' @ color)
             | [] \<Rightarrow> None))"
      by (simp add: extract_no_pot [OF np])
    show ?thesis unfolding e none(1) by (simp add: m f none(2))
  qed
qed


text \<open>
  C5, as stated, fails: when the graphic has a rect with a six-digit fill, only the rect
  fills are counted. With one white rect and two red paths the result is the ignored
  \<open>#FFFFFF\<close>, although the red \<open>AA0000\<close> is among the colours of the text, is not ignored
  and is more frequent.
\<close>

theorem extract_hex_rect_only_counterexample:
  "extract_hex_from_svg white_rect_svg = Some ''#FFFFFF'' \<and>
   findall hex_at white_rect_svg = [''FFFFFF'', ''AA0000'', ''AA0000''] \<and>
   ''AA0000'' \<notin> set ignore_colors \<and> ''FFFFFF'' \<in> set ignore_colors"
  by code_simp

text \<open>
  C5, amended. When the first clip path of the text is \<open>url(#pot)\<close> or \<open>url(#spray)\<close> and
  the first rect behind the end of that tag carries a six-digit fill (the last one of the
  rect tag), \<open>extract_hex_from_svg\<close> returns that fill, uppercased; in general it returns the
  group of the first strategy whenever that matches, and a text without such a clip path
  never matches. Otherwise it counts the colours of \<open>svg_colors\<close> (the six-digit fills of
  the rects or, when there is none, every hex colour of three or six digits in the text,
  normalised to six uppercase digits) and returns the most frequent colour outside the
  ignore set, the first seen among equally frequent ones; when all colours are ignored, the
  most frequent colour of all, again the first seen; and \<open>None\<close> exactly when there is no
  colour at all.
\<close>

theorem extract_hex_from_svg_result:
  \<open>(svg = pre @ clip @ tag @ ''>'' @ mid @ ''<rect'' @ attrs @ ''fill="'' @ color @ ''"'' @ rest \<and>
    (clip = ''clip-path="url(#pot)"'' \<or> clip = ''clip-path="url(#spray)"'') \<and>
    \<not> contains ''clip-path'' pre \<and> CHR ''>'' \<notin> set tag \<and> \<not> contains ''<rect'' mid \<and>
    CHR ''>'' \<notin> set attrs \<and>
    color = CHR ''#'' # digits \<and> length digits = 6 \<and> list_all is_hex digits \<and>
    \<not> contains ''fill='' (takeWhile (\<lambda>c. c \<noteq> CHR ''>'') rest)
    \<longrightarrow> extract_hex_from_svg svg = Some (upper color)) \<and>
   (search_pot svg = Some fill \<longrightarrow> extract_hex_from_svg svg = Some (upper fill)) \<and>
   (\<not> contains ''clip-path="url(#pot)"'' svg \<and> \<not> contains ''clip-path="url(#spray)"'' svg
    \<longrightarrow> search_pot svg = None) \<and>
   (search_pot svg = None \<longrightarrow>
      extract_hex_from_svg svg =
        (case first_most_frequent (svg_colors svg) (\<lambda>d. d \<notin> set ignore_colors) of
           Some c \<Rightarrow> Some (''#'' @ c)
         | None \<Rightarrow> map_option (\<lambda>c. ''#'' @ c)
                     (first_most_frequent (svg_colors svg) (\<lambda>d. True)))) \<and>
   (extract_hex_from_svg svg = None \<longleftrightarrow> search_pot svg = None \<and> svg_colors svg = [])\<close>
proof (intro conjI impI)
  assume a: \<open>svg = pre @ clip @ tag @ ''>'' @ mid @ ''<rect'' @ attrs @ ''fill="'' @ color @ ''"'' @ rest \<and>
    (clip = ''clip-path="url(#pot)"'' \<or> clip = ''clip-path="url(#spray)"'') \<and>
    \<not> contains ''clip-path'' pre \<and> CHR ''>'' \<notin> set tag \<and> \<not> contains ''<rect'' mid \<and>
    CHR ''>'' \<notin> set attrs \<and>
    color = CHR ''#'' # digits \<and> length digits = 6 \<and> list_all is_hex digits \<and>
    \<not> contains ''fill='' (takeWhile (\<lambda>c. c \<noteq> CHR ''>'') rest)\<close>
  have "search_pot svg = Some color"
    by (rule search_pot_found [of svg pre clip tag mid attrs color rest digits]) (use a in blast)+
  then show "extract_hex_from_svg svg = Some (upper color)"
    by (simp add: extract_hex_from_svg_def)
next
  assume "search_pot svg = Some fill"
  then show "extract_hex_from_svg svg = Some (upper fill)"
    by (simp add: extract_hex_from_svg_def)
next
  assume \<open>\<not> contains ''clip-path="url(#pot)"'' svg \<and> \<not> contains ''clip-path="url(#spray)"'' svg\<close>
  then show "search_pot svg = None" by (simp add: search_pot_absent)
next
  assume "search_pot svg = None"
  then show "extract_hex_from_svg svg =
        (case first_most_frequent (svg_colors svg) (\<lambda>d. d \<notin> set ignore_colors) of
           Some c \<Rightarrow> Some (''#'' @ c)
         | None \<Rightarrow> map_option (\<lambda>c. ''#'' @ c)
                     (first_most_frequent (svg_colors svg) (\<lambda>d. True)))"
    by (rule extract_counted)
next
  show "extract_hex_from_svg svg = None \<longleftrightarrow> search_pot svg = None \<and> svg_colors svg = []"
  proof (cases "search_pot svg")
    case (Some f)
    then show ?thesis by (simp add: extract_hex_from_svg_def)
  next
    case None
    show ?thesis
    proof (cases "svg_colors svg = []")
      case True
      with None show ?thesis by (simp add: extract_no_pot)
    next
      case False
      then have ex: "\<exists>d \<in> set (svg_colors svg). True" by (cases "svg_colors svg") auto
      from first_pick [of "svg_colors svg" "\<lambda>d. True", OF ex]
      obtain c where c: "first_most_frequent (svg_colors svg) (\<lambda>d. True) = Some c" by auto
      have "extract_hex_from_svg svg \<noteq> None"
        unfolding extract_counted [OF None] by (simp add: c split: option.splits)
      with None False show ?thesis by simp
    qed
  qed
qed

lemma pot_svg_search: "search_pot pot_svg = Some ''#8f7c68''"
  by code_simp

lemma paths_svg_colors:
  "search_pot paths_svg = None \<and>
   svg_colors paths_svg = [''FFFFFF'', ''AA0000'', ''AA0000'', ''00B000'']"
  by code_simp


lemma white_rect_svg_colors:
  "search_pot white_rect_svg = None \<and> svg_colors white_rect_svg = [''FFFFFF'']"
  by code_simp

lemma no_colours_svg: "search_pot ''no colours'' = None \<and> svg_colors ''no colours'' = []"
  by code_simp

lemma upper_pot_fill: "upper ''#8f7c68'' = ''#8F7C68''"
  by code_simp

lemma spray_fill_upper: "upper ''#1B3A5C'' = ''#1B3A5C''"
  by code_simp

lemma counted_examples:
  "first_most_frequent (svg_colors paths_svg) (\<lambda>d. d \<notin> set ignore_colors) = Some ''AA0000''"
  "first_most_frequent (svg_colors tie_svg) (\<lambda>d. d \<notin> set ignore_colors) = Some ''AA0000''"
  "first_most_frequent (svg_colors white_rect_svg) (\<lambda>d. d \<notin> set ignore_colors) = None"
  "first_most_frequent (svg_colors white_rect_svg) (\<lambda>d. True) = Some ''FFFFFF''"
  "first_most_frequent (svg_colors ''no colours'') (\<lambda>d. d \<notin> set ignore_colors) = None"
  "first_most_frequent (svg_colors ''no colours'') (\<lambda>d. True) = None"
  by code_simp+

lemma tie_svg_colors: "svg_colors tie_svg = [''AA0000'', ''00BB00'']"
  by code_simp

lemma no_clip_examples:
  \<open>\<not> contains ''clip-path="url(#pot)"'' paths_svg \<and> \<not> contains ''clip-path="url(#spray)"'' paths_svg\<close>
  \<open>\<not> contains ''clip-path="url(#pot)"'' tie_svg \<and> \<not> contains ''clip-path="url(#spray)"'' tie_svg\<close>
  \<open>\<not> contains ''clip-path="url(#pot)"'' white_rect_svg \<and>
   \<not> contains ''clip-path="url(#spray)"'' white_rect_svg\<close>
  \<open>\<not> contains ''clip-path="url(#pot)"'' ''no colours'' \<and>
   \<not> contains ''clip-path="url(#spray)"'' ''no colours''\<close>
  by code_simp+

text \<open>
  Instances: a pot graphic and a spray graphic with their decomposition, a graphic of paths
  (the red \<open>AA0000\<close> wins over the ignored white), a graphic of two colours seen once each
  (the first wins), a graphic whose only rect is white, and a text without colours.
\<close>

theorem extract_hex_from_svg_result_witness:
  \<open>pot_svg = ''<g '' @ ''clip-path="url(#pot)"'' @ [] @ ''>'' @ ''<path fill="#fff"/>'' @ ''<rect'' @
      '' width="9" '' @ ''fill="'' @ ''#8f7c68'' @ ''"'' @ ''/></g>'' \<and>
   extract_hex_from_svg pot_svg = Some ''#8F7C68'' \<and>
   spray_svg = ''<svg><g '' @ ''clip-path="url(#spray)"'' @ '' id="can"'' @ ''>'' @ [] @ ''<rect'' @
      '' x="1" '' @ ''fill="'' @ ''#1B3A5C'' @ ''"'' @ '' y="2"/></g></svg>'' \<and>
   extract_hex_from_svg spray_svg = Some ''#1B3A5C'' \<and>
   search_pot paths_svg = None \<and>
   svg_colors paths_svg = [''FFFFFF'', ''AA0000'', ''AA0000'', ''00B000''] \<and>
   extract_hex_from_svg paths_svg = Some ''#AA0000'' \<and>
   svg_colors tie_svg = [''AA0000'', ''00BB00''] \<and>
   extract_hex_from_svg tie_svg = Some ''#AA0000'' \<and>
   svg_colors white_rect_svg = [''FFFFFF''] \<and>
   extract_hex_from_svg white_rect_svg = Some ''#FFFFFF'' \<and>
   extract_hex_from_svg ''no colours'' = None\<close>
proof -
  have p: \<open>pot_svg = ''<g '' @ ''clip-path="url(#pot)"'' @ [] @ ''>'' @ ''<path fill="#fff"/>'' @ ''<rect'' @
      '' width="9" '' @ ''fill="'' @ ''#8f7c68'' @ ''"'' @ ''/></g>''\<close>
    by (simp add: pot_svg_def)
  have ph: \<open>\<not> contains ''clip-path'' ''<g '' \<and> CHR ''>'' \<notin> set [] \<and>
      \<not> contains ''<rect'' ''<path fill="#fff"/>'' \<and> CHR ''>'' \<notin> set '' width="9" '' \<and>
      ''#8f7c68'' = CHR ''#'' # ''8f7c68'' \<and> length ''8f7c68'' = 6 \<and> list_all is_hex ''8f7c68'' \<and>
      \<not> contains ''fill='' (takeWhile (\<lambda>c. c \<noteq> CHR ''>'') ''/></g>'')\<close>
    by (simp add: is_hex_def is_digit_def)
  from p ph extract_hex_from_svg_result
    [where svg = pot_svg and pre = "''<g ''" and clip = \<open>''clip-path="url(#pot)"''\<close> and tag = "[]"
       and mid = \<open>''<path fill="#fff"/>''\<close> and attrs = \<open>'' width="9" ''\<close>
       and color = "''#8f7c68''" and digits = "''8f7c68''" and rest = "''/></g>''"]
  have a: "extract_hex_from_svg pot_svg = Some ''#8F7C68''"
    by (simp only: upper_pot_fill simp_thms)
  have s: \<open>spray_svg = ''<svg><g '' @ ''clip-path="url(#spray)"'' @ '' id="can"'' @ ''>'' @ [] @ ''<rect'' @
      '' x="1" '' @ ''fill="'' @ ''#1B3A5C'' @ ''"'' @ '' y="2"/></g></svg>''\<close>
    by (simp add: spray_svg_def)
  have sh: \<open>\<not> contains ''clip-path'' ''<svg><g '' \<and> CHR ''>'' \<notin> set '' id="can"'' \<and>
      \<not> contains ''<rect'' [] \<and> CHR ''>'' \<notin> set '' x="1" '' \<and>
      ''#1B3A5C'' = CHR ''#'' # ''1B3A5C'' \<and> length ''1B3A5C'' = 6 \<and> list_all is_hex ''1B3A5C'' \<and>
      \<not> contains ''fill='' (takeWhile (\<lambda>c. c \<noteq> CHR ''>'') '' y="2"/></g></svg>'')\<close>
    by (simp add: is_hex_def is_digit_def)
  from s sh extract_hex_from_svg_result
    [where svg = spray_svg and pre = "''<svg><g ''" and clip = \<open>''clip-path="url(#spray)"''\<close>
       and tag = \<open>'' id="can"''\<close> and mid = "[]" and attrs = \<open>'' x="1" ''\<close>
       and color = "''#1B3A5C''" and digits = "''1B3A5C''" and rest = \<open>'' y="2"/></g></svg>''\<close>]
  have b: "extract_hex_from_svg spray_svg = Some ''#1B3A5C''"
    by (simp only: spray_fill_upper simp_thms)
  from no_clip_examples(1) extract_hex_from_svg_result [where svg = paths_svg]
  have c0: "search_pot paths_svg = None" by blast
  with extract_hex_from_svg_result [where svg = paths_svg]
  have c: "extract_hex_from_svg paths_svg = Some ''#AA0000''"
    by (simp add: counted_examples)
  from no_clip_examples(2) extract_hex_from_svg_result [where svg = tie_svg]
  have "search_pot tie_svg = None" by blast
  with extract_hex_from_svg_result [where svg = tie_svg]
  have d: "extract_hex_from_svg tie_svg = Some ''#AA0000''"
    by (simp add: counted_examples)
  from no_clip_examples(3) extract_hex_from_svg_result [where svg = white_rect_svg]
  have "search_pot white_rect_svg = None" by blast
  with extract_hex_from_svg_result [where svg = white_rect_svg]
  have e: "extract_hex_from_svg white_rect_svg = Some ''#FFFFFF''"
    by (simp add: counted_examples)
  from no_clip_examples(4) extract_hex_from_svg_result [where svg = "''no colours''"]
  have "search_pot ''no colours'' = None" by blast
  with extract_hex_from_svg_result [where svg = "''no colours''"]
  have f: "extract_hex_from_svg ''no colours'' = None"
    by (simp add: counted_examples)
  from p a s b c0 paths_svg_colors c tie_svg_colors d white_rect_svg_colors e f
  show ?thesis by (intro conjI) simp_all
qed


end
